theory Spec2Isabelle
  imports Complex_Main "HOL-Library.Word"
begin

unbundle bit_operations_syntax

section \<open>The chartable plugin: data model\<close>

text \<open>
  The development follows \<^verbatim>\<open>src/plugins/chartable.c\<close>; line numbers are those of this
  file.  A word (\<^verbatim>\<open>rspamd_stat_token_t\<close>)
  is a byte range; a \<^verbatim>\<open>gdouble\<close> score is the real number that the binary64 value stands
  for, and the additions and divisions of the plugin round their result to binary64; the
  \<^verbatim>\<open>guint\<close>/\<^verbatim>\<open>gint\<close> counters of one word are natural numbers (a word is far shorter than
  \<open>2 ^ 32\<close> characters, so none of them wraps); the option \<^verbatim>\<open>max_word_len\<close>, a \<^verbatim>\<open>guint\<close>, is a
  word of 32 bits.  A code point (\<^verbatim>\<open>UChar32\<close>) is an integer,
  negative when decoding failed.
\<close>

type_synonym u8 = "8 word"

type_synonym detection = "string \<times> real \<times> string option"

record chartable_ctx =
  symbol :: string
  url_symbol :: string
  threshold :: real
  max_word_len :: "32 word"

record rspamd_stat_token =
  tok_bytes :: "u8 list"
  flag_text :: bool

record rspamd_mime_text_part =
  part_utf :: bool
  normalized_words :: "rspamd_stat_token list option"
  capital_letters :: nat

text \<open>
  The functions of ICU, GLib and the tokenizer that the plugin calls are not part of the
  plugin: every scorer takes them as a parameter.
\<close>

record extlib =
  u_isalpha :: "int \<Rightarrow> bool"
  u_isdigit :: "int \<Rightarrow> bool"
  u_isupper :: "int \<Rightarrow> bool"
  ublock_getCode :: "int \<Rightarrow> int"
  g_utf8_validate :: "u8 list \<Rightarrow> bool"
  rspamd_tokenize_text :: "u8 list \<Rightarrow> rspamd_stat_token list option"

section \<open>Double arithmetic\<close>

text \<open>The integer nearest to a real number; of two nearest integers the even one.\<close>

definition round_even :: "real \<Rightarrow> int" where
  "round_even r =
     (let f = \<lfloor>r\<rfloor>
      in if r - of_int f < 1 / 2 then f
         else if r - of_int f > 1 / 2 then f + 1
         else if even f then f else f + 1)"

text \<open>
  Rounding to binary64, to nearest with ties to even: the result is a multiple of
  \<open>2 ^ (e - 52)\<close> where \<open>2 ^ e \<le> \<bar>x\<bar> < 2 ^ (e + 1)\<close>.  The exponent is not bounded here; the
  scores of the plugin are \<open>0\<close> or lie between \<open>2 ^ - 64\<close> and \<open>2 ^ 64\<close>, far inside the normal
  range of binary64, where this is the rounding of the machine.
\<close>

definition b64_round :: "real \<Rightarrow> real" where
  "b64_round x =
     (if x = 0 then 0
      else let u = 2 powi (\<lfloor>log 2 \<bar>x\<bar>\<rfloor> - 52)
           in of_int (round_even (x / u)) * u)"

text \<open>The sum and the quotient of two \<^verbatim>\<open>gdouble\<close> values as C computes them.\<close>

definition dbl_add :: "real \<Rightarrow> real \<Rightarrow> real" where
  "dbl_add x y = b64_round (x + y)"

definition dbl_div :: "real \<Rightarrow> real \<Rightarrow> real" where
  "dbl_div x y = b64_round (x / y)"

text \<open>The values of ICU's \<^verbatim>\<open>UBlockCode\<close> enumeration that the plugin names.\<close>

definition UBLOCK_BASIC_LATIN :: int where
  "UBLOCK_BASIC_LATIN = 1"

definition UBLOCK_COMBINING_DIACRITICAL_MARKS :: int where
  "UBLOCK_COMBINING_DIACRITICAL_MARKS = 7"

definition UBLOCK_LATIN_EXTENDED_ADDITIONAL :: int where
  "UBLOCK_LATIN_EXTENDED_ADDITIONAL = 38"

definition DEFAULT_SYMBOL :: string where
  "DEFAULT_SYMBOL = ''R_MIXED_CHARSET''"

definition DEFAULT_URL_SYMBOL :: string where
  "DEFAULT_URL_SYMBOL = ''R_MIXED_CHARSET_URL''"

text \<open>The literal \<^verbatim>\<open>0.1\<close> is the binary64 value nearest to one tenth.\<close>

definition DEFAULT_THRESHOLD :: real where
  "DEFAULT_THRESHOLD = b64_round (1 / 10)"

section \<open>The confusable set\<close>

definition latin_confusable :: "int list" where
  "latin_confusable = [
   0x02028, 0x02029, 0x01680, 0x02000, 0x02001, 0x02002, 0x02003, 0x02004, 0x02005, 0x02006,
   0x02008, 0x02009, 0x0200A, 0x0205F, 0x000A0, 0x02007, 0x0202F, 0x007FA, 0x0FE4D, 0x0FE4E,
   0x0FE4F, 0x02010, 0x02011, 0x02012, 0x02013, 0x0FE58, 0x006D4, 0x02043, 0x002D7, 0x02212,
   0x02796, 0x02CBA, 0x0060D, 0x0066B, 0x0201A, 0x000B8, 0x0A4F9, 0x0037E, 0x00903, 0x00A83,
   0x0FF1A, 0x00589, 0x00703, 0x00704, 0x016EC, 0x0FE30, 0x01803, 0x01809, 0x0205A, 0x005C3,
   0x002F8, 0x0A789, 0x02236, 0x002D0, 0x0A4FD, 0x0FF01, 0x001C3, 0x02D51, 0x00294, 0x00241,
   0x0097D, 0x013AE, 0x0A6EB, 0x1D16D, 0x02024, 0x00701, 0x00702, 0x0A60E, 0x10A50, 0x00660,
   0x006F0, 0x0A4F8, 0x0055D, 0x0FF07, 0x02018, 0x02019, 0x0201B, 0x02032, 0x02035, 0x0055A,
   0x005F3, 0x00060, 0x01FEF, 0x0FF40, 0x000B4, 0x00384, 0x01FFD, 0x01FBD, 0x01FBF, 0x01FFE,
   0x002B9, 0x00374, 0x002C8, 0x002CA, 0x002CB, 0x002F4, 0x002BB, 0x002BD, 0x002BC, 0x002BE,
   0x0A78C, 0x005D9, 0x007F4, 0x007F5, 0x0144A, 0x016CC, 0x16F51, 0x16F52, 0x0FF3B, 0x02768,
   0x02772, 0x03014, 0x0FD3E, 0x0FF3D, 0x02769, 0x02773, 0x03015, 0x0FD3F, 0x02774, 0x1D114,
   0x02775, 0x0204E, 0x0066D, 0x02217, 0x1031F, 0x01735, 0x02041, 0x02215, 0x02044, 0x02571,
   0x027CB, 0x029F8, 0x1D23A, 0x031D3, 0x03033, 0x02CC6, 0x030CE, 0x04E3F, 0x02F03, 0x0FF3C,
   0x0FE68, 0x02216, 0x027CD, 0x029F5, 0x029F9, 0x1D20F, 0x1D23B, 0x031D4, 0x04E36, 0x02F02,
   0x0A778, 0x002C4, 0x002C6, 0x016ED, 0x02795, 0x1029B, 0x02039, 0x0276E, 0x002C2, 0x1D236,
   0x01438, 0x016B2, 0x01400, 0x02E40, 0x030A0, 0x0A4FF, 0x0203A, 0x0276F, 0x002C3, 0x1D237,
   0x01433, 0x16F3F, 0x02053, 0x002DC, 0x01FC0, 0x0223C, 0x1D7D0, 0x1D7DA, 0x1D7E4, 0x1D7EE,
   0x1D7F8, 0x0A75A, 0x001A7, 0x003E8, 0x0A644, 0x014BF, 0x0A6EF, 0x1D206, 0x1D7D1, 0x1D7DB,
   0x1D7E5, 0x1D7EF, 0x1D7F9, 0x0A7AB, 0x0021C, 0x001B7, 0x0A76A, 0x02CCC, 0x00417, 0x004E0,
   0x16F3B, 0x118CA, 0x1D7D2, 0x1D7DC, 0x1D7E6, 0x1D7F0, 0x1D7FA, 0x013CE, 0x118AF, 0x1D7D3,
   0x1D7DD, 0x1D7E7, 0x1D7F1, 0x1D7FB, 0x001BC, 0x118BB, 0x1D7D4, 0x1D7DE, 0x1D7E8, 0x1D7F2,
   0x1D7FC, 0x02CD2, 0x00431, 0x013EE, 0x118D5, 0x1D212, 0x1D7D5, 0x1D7DF, 0x1D7E9, 0x1D7F3,
   0x1D7FD, 0x104D2, 0x118C6, 0x00B03, 0x009EA, 0x00A6A, 0x1E8CB, 0x1D7D6, 0x1D7E0, 0x1D7EA,
   0x1D7F4, 0x1D7FE, 0x00223, 0x00222, 0x1031A, 0x00A67, 0x00B68, 0x009ED, 0x00D6D, 0x1D7D7,
   0x1D7E1, 0x1D7EB, 0x1D7F5, 0x1D7FF, 0x0A76E, 0x02CCA, 0x118CC, 0x118AC, 0x118D6, 0x0237A,
   0x0FF41, 0x1D41A, 0x1D44E, 0x1D482, 0x1D4B6, 0x1D4EA, 0x1D51E, 0x1D552, 0x1D586, 0x1D5BA,
   0x1D5EE, 0x1D622, 0x1D656, 0x1D68A, 0x00251, 0x003B1, 0x1D6C2, 0x1D6FC, 0x1D736, 0x1D770,
   0x1D7AA, 0x00430, 0x0FF21, 0x1D400, 0x1D434, 0x1D468, 0x1D49C, 0x1D4D0, 0x1D504, 0x1D538,
   0x1D56C, 0x1D5A0, 0x1D5D4, 0x1D608, 0x1D63C, 0x1D670, 0x00391, 0x1D6A8, 0x1D6E2, 0x1D71C,
   0x1D756, 0x1D790, 0x00410, 0x013AA, 0x015C5, 0x0A4EE, 0x16F40, 0x102A0, 0x1D41B, 0x1D44F,
   0x1D483, 0x1D4B7, 0x1D4EB, 0x1D51F, 0x1D553, 0x1D587, 0x1D5BB, 0x1D5EF, 0x1D623, 0x1D657,
   0x1D68B, 0x00184, 0x0042C, 0x013CF, 0x015AF, 0x0FF22, 0x0212C, 0x1D401, 0x1D435, 0x1D469,
   0x1D4D1, 0x1D505, 0x1D539, 0x1D56D, 0x1D5A1, 0x1D5D5, 0x1D609, 0x1D63D, 0x1D671, 0x0A7B4,
   0x00392, 0x1D6A9, 0x1D6E3, 0x1D71D, 0x1D757, 0x1D791, 0x00412, 0x013F4, 0x015F7, 0x0A4D0,
   0x10282, 0x102A1, 0x10301, 0x0FF43, 0x0217D, 0x1D41C, 0x1D450, 0x1D484, 0x1D4B8, 0x1D4EC,
   0x1D520, 0x1D554, 0x1D588, 0x1D5BC, 0x1D5F0, 0x1D624, 0x1D658, 0x1D68C, 0x01D04, 0x003F2,
   0x02CA5, 0x00441, 0x0ABAF, 0x1043D, 0x1F74C, 0x118F2, 0x118E9, 0x0FF23, 0x0216D, 0x02102,
   0x0212D, 0x1D402, 0x1D436, 0x1D46A, 0x1D49E, 0x1D4D2, 0x1D56E, 0x1D5A2, 0x1D5D6, 0x1D60A,
   0x1D63E, 0x1D672, 0x003F9, 0x02CA4, 0x00421, 0x013DF, 0x0A4DA, 0x102A2, 0x10302, 0x10415,
   0x1051C, 0x0217E, 0x02146, 0x1D41D, 0x1D451, 0x1D485, 0x1D4B9, 0x1D4ED, 0x1D521, 0x1D555,
   0x1D589, 0x1D5BD, 0x1D5F1, 0x1D625, 0x1D659, 0x1D68D, 0x00501, 0x013E7, 0x0146F, 0x0A4D2,
   0x0216E, 0x02145, 0x1D403, 0x1D437, 0x1D46B, 0x1D49F, 0x1D4D3, 0x1D507, 0x1D53B, 0x1D56F,
   0x1D5A3, 0x1D5D7, 0x1D60B, 0x1D63F, 0x1D673, 0x013A0, 0x015DE, 0x015EA, 0x0A4D3, 0x0212E,
   0x0FF45, 0x0212F, 0x02147, 0x1D41E, 0x1D452, 0x1D486, 0x1D4EE, 0x1D522, 0x1D556, 0x1D58A,
   0x1D5BE, 0x1D5F2, 0x1D626, 0x1D65A, 0x1D68E, 0x0AB32, 0x00435, 0x004BD, 0x022FF, 0x0FF25,
   0x02130, 0x1D404, 0x1D438, 0x1D46C, 0x1D4D4, 0x1D508, 0x1D53C, 0x1D570, 0x1D5A4, 0x1D5D8,
   0x1D60C, 0x1D640, 0x1D674, 0x00395, 0x1D6AC, 0x1D6E6, 0x1D720, 0x1D75A, 0x1D794, 0x00415,
   0x02D39, 0x013AC, 0x0A4F0, 0x118A6, 0x118AE, 0x10286, 0x1D41F, 0x1D453, 0x1D487, 0x1D4BB,
   0x1D4EF, 0x1D523, 0x1D557, 0x1D58B, 0x1D5BF, 0x1D5F3, 0x1D627, 0x1D65B, 0x1D68F, 0x0AB35,
   0x0A799, 0x0017F, 0x01E9D, 0x00584, 0x1D213, 0x02131, 0x1D405, 0x1D439, 0x1D46D, 0x1D4D5,
   0x1D509, 0x1D53D, 0x1D571, 0x1D5A5, 0x1D5D9, 0x1D60D, 0x1D641, 0x1D675, 0x0A798, 0x003DC,
   0x1D7CA, 0x015B4, 0x0A4DD, 0x118C2, 0x118A2, 0x10287, 0x102A5, 0x10525, 0x0FF47, 0x0210A,
   0x1D420, 0x1D454, 0x1D488, 0x1D4F0, 0x1D524, 0x1D558, 0x1D58C, 0x1D5C0, 0x1D5F4, 0x1D628,
   0x1D65C, 0x1D690, 0x00261, 0x01D83, 0x0018D, 0x00581, 0x1D406, 0x1D43A, 0x1D46E, 0x1D4A2,
   0x1D4D6, 0x1D50A, 0x1D53E, 0x1D572, 0x1D5A6, 0x1D5DA, 0x1D60E, 0x1D642, 0x1D676, 0x0050C,
   0x013C0, 0x013F3, 0x0A4D6, 0x0FF48, 0x0210E, 0x1D421, 0x1D489, 0x1D4BD, 0x1D4F1, 0x1D525,
   0x1D559, 0x1D58D, 0x1D5C1, 0x1D5F5, 0x1D629, 0x1D65D, 0x1D691, 0x004BB, 0x00570, 0x013C2,
   0x0FF28, 0x0210B, 0x0210C, 0x0210D, 0x1D407, 0x1D43B, 0x1D46F, 0x1D4D7, 0x1D573, 0x1D5A7,
   0x1D5DB, 0x1D60F, 0x1D643, 0x1D677, 0x00397, 0x1D6AE, 0x1D6E8, 0x1D722, 0x1D75C, 0x1D796,
   0x02C8E, 0x0041D, 0x013BB, 0x0157C, 0x0A4E7, 0x102CF, 0x002DB, 0x02373, 0x0FF49, 0x02170,
   0x02139, 0x02148, 0x1D422, 0x1D456, 0x1D48A, 0x1D4BE, 0x1D4F2, 0x1D526, 0x1D55A, 0x1D58E,
   0x1D5C2, 0x1D5F6, 0x1D62A, 0x1D65E, 0x1D692, 0x00131, 0x1D6A4, 0x0026A, 0x00269, 0x003B9,
   0x01FBE, 0x0037A, 0x1D6CA, 0x1D704, 0x1D73E, 0x1D778, 0x1D7B2, 0x00456, 0x0A647, 0x004CF,
   0x0AB75, 0x013A5, 0x118C3, 0x0FF4A, 0x02149, 0x1D423, 0x1D457, 0x1D48B, 0x1D4BF, 0x1D4F3,
   0x1D527, 0x1D55B, 0x1D58F, 0x1D5C3, 0x1D5F7, 0x1D62B, 0x1D65F, 0x1D693, 0x003F3, 0x00458,
   0x0FF2A, 0x1D409, 0x1D43D, 0x1D471, 0x1D4A5, 0x1D4D9, 0x1D50D, 0x1D541, 0x1D575, 0x1D5A9,
   0x1D5DD, 0x1D611, 0x1D645, 0x1D679, 0x0A7B2, 0x0037F, 0x00408, 0x013AB, 0x0148D, 0x0A4D9,
   0x1D424, 0x1D458, 0x1D48C, 0x1D4C0, 0x1D4F4, 0x1D528, 0x1D55C, 0x1D590, 0x1D5C4, 0x1D5F8,
   0x1D62C, 0x1D660, 0x1D694, 0x0212A, 0x0FF2B, 0x1D40A, 0x1D43E, 0x1D472, 0x1D4A6, 0x1D4DA,
   0x1D50E, 0x1D542, 0x1D576, 0x1D5AA, 0x1D5DE, 0x1D612, 0x1D646, 0x1D67A, 0x0039A, 0x1D6B1,
   0x1D6EB, 0x1D725, 0x1D75F, 0x1D799, 0x02C94, 0x0041A, 0x013E6, 0x016D5, 0x0A4D7, 0x10518,
   0x005C0, 0x0007C, 0x02223, 0x023FD, 0x0FFE8, 0x00031, 0x00661, 0x006F1, 0x10320, 0x1E8C7,
   0x1D7CF, 0x1D7D9, 0x1D7E3, 0x1D7ED, 0x1D7F7, 0x00049, 0x0FF29, 0x02160, 0x02110, 0x02111,
   0x1D408, 0x1D43C, 0x1D470, 0x1D4D8, 0x1D540, 0x1D574, 0x1D5A8, 0x1D5DC, 0x1D610, 0x1D644,
   0x1D678, 0x00196, 0x0FF4C, 0x0217C, 0x02113, 0x1D425, 0x1D459, 0x1D48D, 0x1D4C1, 0x1D4F5,
   0x1D529, 0x1D55D, 0x1D591, 0x1D5C5, 0x1D5F9, 0x1D62D, 0x1D661, 0x1D695, 0x001C0, 0x00399,
   0x1D6B0, 0x1D6EA, 0x1D724, 0x1D75E, 0x1D798, 0x02C92, 0x00406, 0x004C0, 0x005D5, 0x005DF,
   0x00627, 0x1EE00, 0x1EE80, 0x0FE8E, 0x0FE8D, 0x007CA, 0x02D4F, 0x016C1, 0x0A4F2, 0x16F28,
   0x1028A, 0x10309, 0x1D22A, 0x0216C, 0x02112, 0x1D40B, 0x1D43F, 0x1D473, 0x1D4DB, 0x1D50F,
   0x1D543, 0x1D577, 0x1D5AB, 0x1D5DF, 0x1D613, 0x1D647, 0x1D67B, 0x02CD0, 0x013DE, 0x014AA,
   0x0A4E1, 0x16F16, 0x118A3, 0x118B2, 0x1041B, 0x10526, 0x0FF2D, 0x0216F, 0x02133, 0x1D40C,
   0x1D440, 0x1D474, 0x1D4DC, 0x1D510, 0x1D544, 0x1D578, 0x1D5AC, 0x1D5E0, 0x1D614, 0x1D648,
   0x1D67C, 0x0039C, 0x1D6B3, 0x1D6ED, 0x1D727, 0x1D761, 0x1D79B, 0x003FA, 0x02C98, 0x0041C,
   0x013B7, 0x015F0, 0x016D6, 0x0A4DF, 0x102B0, 0x10311, 0x1D427, 0x1D45B, 0x1D48F, 0x1D4C3,
   0x1D4F7, 0x1D52B, 0x1D55F, 0x1D593, 0x1D5C7, 0x1D5FB, 0x1D62F, 0x1D663, 0x1D697, 0x00578,
   0x0057C, 0x0FF2E, 0x02115, 0x1D40D, 0x1D441, 0x1D475, 0x1D4A9, 0x1D4DD, 0x1D511, 0x1D579,
   0x1D5AD, 0x1D5E1, 0x1D615, 0x1D649, 0x1D67D, 0x0039D, 0x1D6B4, 0x1D6EE, 0x1D728, 0x1D762,
   0x1D79C, 0x02C9A, 0x0A4E0, 0x10513, 0x00C02, 0x00C82, 0x00D02, 0x00D82, 0x00966, 0x00A66,
   0x00AE6, 0x00BE6, 0x00C66, 0x00CE6, 0x00D66, 0x00E50, 0x00ED0, 0x01040, 0x00665, 0x006F5,
   0x0FF4F, 0x02134, 0x1D428, 0x1D45C, 0x1D490, 0x1D4F8, 0x1D52C, 0x1D560, 0x1D594, 0x1D5C8,
   0x1D5FC, 0x1D630, 0x1D664, 0x1D698, 0x01D0F, 0x01D11, 0x0AB3D, 0x003BF, 0x1D6D0, 0x1D70A,
   0x1D744, 0x1D77E, 0x1D7B8, 0x003C3, 0x1D6D4, 0x1D70E, 0x1D748, 0x1D782, 0x1D7BC, 0x02C9F,
   0x0043E, 0x010FF, 0x00585, 0x005E1, 0x00647, 0x1EE24, 0x1EE64, 0x1EE84, 0x0FEEB, 0x0FEEC,
   0x0FEEA, 0x0FEE9, 0x006BE, 0x0FBAC, 0x0FBAD, 0x0FBAB, 0x0FBAA, 0x006C1, 0x0FBA8, 0x0FBA9,
   0x0FBA7, 0x0FBA6, 0x006D5, 0x00D20, 0x0101D, 0x104EA, 0x118C8, 0x118D7, 0x1042C, 0x00030,
   0x007C0, 0x009E6, 0x00B66, 0x03007, 0x114D0, 0x118E0, 0x1D7CE, 0x1D7D8, 0x1D7E2, 0x1D7EC,
   0x1D7F6, 0x0FF2F, 0x1D40E, 0x1D442, 0x1D476, 0x1D4AA, 0x1D4DE, 0x1D512, 0x1D546, 0x1D57A,
   0x1D5AE, 0x1D5E2, 0x1D616, 0x1D64A, 0x1D67E, 0x0039F, 0x1D6B6, 0x1D6F0, 0x1D72A, 0x1D764,
   0x1D79E, 0x02C9E, 0x0041E, 0x00555, 0x02D54, 0x012D0, 0x00B20, 0x104C2, 0x0A4F3, 0x118B5,
   0x10292, 0x102AB, 0x10404, 0x10516, 0x02374, 0x0FF50, 0x1D429, 0x1D45D, 0x1D491, 0x1D4C5,
   0x1D4F9, 0x1D52D, 0x1D561, 0x1D595, 0x1D5C9, 0x1D5FD, 0x1D631, 0x1D665, 0x1D699, 0x003C1,
   0x003F1, 0x1D6D2, 0x1D6E0, 0x1D70C, 0x1D71A, 0x1D746, 0x1D754, 0x1D780, 0x1D78E, 0x1D7BA,
   0x1D7C8, 0x02CA3, 0x00440, 0x0FF30, 0x02119, 0x1D40F, 0x1D443, 0x1D477, 0x1D4AB, 0x1D4DF,
   0x1D513, 0x1D57B, 0x1D5AF, 0x1D5E3, 0x1D617, 0x1D64B, 0x1D67F, 0x003A1, 0x1D6B8, 0x1D6F2,
   0x1D72C, 0x1D766, 0x1D7A0, 0x02CA2, 0x00420, 0x013E2, 0x0146D, 0x0A4D1, 0x10295, 0x1D42A,
   0x1D45E, 0x1D492, 0x1D4C6, 0x1D4FA, 0x1D52E, 0x1D562, 0x1D596, 0x1D5CA, 0x1D5FE, 0x1D632,
   0x1D666, 0x1D69A, 0x0051B, 0x00563, 0x00566, 0x0211A, 0x1D410, 0x1D444, 0x1D478, 0x1D4AC,
   0x1D4E0, 0x1D514, 0x1D57C, 0x1D5B0, 0x1D5E4, 0x1D618, 0x1D64C, 0x1D680, 0x02D55, 0x1D42B,
   0x1D45F, 0x1D493, 0x1D4C7, 0x1D4FB, 0x1D52F, 0x1D563, 0x1D597, 0x1D5CB, 0x1D5FF, 0x1D633,
   0x1D667, 0x1D69B, 0x0AB47, 0x0AB48, 0x01D26, 0x02C85, 0x00433, 0x0AB81, 0x1D216, 0x0211B,
   0x0211C, 0x0211D, 0x1D411, 0x1D445, 0x1D479, 0x1D4E1, 0x1D57D, 0x1D5B1, 0x1D5E5, 0x1D619,
   0x1D64D, 0x1D681, 0x001A6, 0x013A1, 0x013D2, 0x104B4, 0x01587, 0x0A4E3, 0x16F35, 0x0FF53,
   0x1D42C, 0x1D460, 0x1D494, 0x1D4C8, 0x1D4FC, 0x1D530, 0x1D564, 0x1D598, 0x1D5CC, 0x1D600,
   0x1D634, 0x1D668, 0x1D69C, 0x0A731, 0x001BD, 0x00455, 0x0ABAA, 0x118C1, 0x10448, 0x0FF33,
   0x1D412, 0x1D446, 0x1D47A, 0x1D4AE, 0x1D4E2, 0x1D516, 0x1D54A, 0x1D57E, 0x1D5B2, 0x1D5E6,
   0x1D61A, 0x1D64E, 0x1D682, 0x00405, 0x0054F, 0x013D5, 0x013DA, 0x0A4E2, 0x16F3A, 0x10296,
   0x10420, 0x1D42D, 0x1D461, 0x1D495, 0x1D4C9, 0x1D4FD, 0x1D531, 0x1D565, 0x1D599, 0x1D5CD,
   0x1D601, 0x1D635, 0x1D669, 0x1D69D, 0x022A4, 0x027D9, 0x1F768, 0x0FF34, 0x1D413, 0x1D447,
   0x1D47B, 0x1D4AF, 0x1D4E3, 0x1D517, 0x1D54B, 0x1D57F, 0x1D5B3, 0x1D5E7, 0x1D61B, 0x1D64F,
   0x1D683, 0x003A4, 0x1D6BB, 0x1D6F5, 0x1D72F, 0x1D769, 0x1D7A3, 0x02CA6, 0x00422, 0x013A2,
   0x0A4D4, 0x16F0A, 0x118BC, 0x10297, 0x102B1, 0x10315, 0x1D42E, 0x1D462, 0x1D496, 0x1D4CA,
   0x1D4FE, 0x1D532, 0x1D566, 0x1D59A, 0x1D5CE, 0x1D602, 0x1D636, 0x1D66A, 0x1D69E, 0x0A79F,
   0x01D1C, 0x0AB4E, 0x0AB52, 0x0028B, 0x003C5, 0x1D6D6, 0x1D710, 0x1D74A, 0x1D784, 0x1D7BE,
   0x0057D, 0x104F6, 0x118D8, 0x0222A, 0x022C3, 0x1D414, 0x1D448, 0x1D47C, 0x1D4B0, 0x1D4E4,
   0x1D518, 0x1D54C, 0x1D580, 0x1D5B4, 0x1D5E8, 0x1D61C, 0x1D650, 0x1D684, 0x0054D, 0x01200,
   0x104CE, 0x0144C, 0x0A4F4, 0x16F42, 0x118B8, 0x02228, 0x022C1, 0x0FF56, 0x02174, 0x1D42F,
   0x1D463, 0x1D497, 0x1D4CB, 0x1D4FF, 0x1D533, 0x1D567, 0x1D59B, 0x1D5CF, 0x1D603, 0x1D637,
   0x1D66B, 0x1D69F, 0x01D20, 0x003BD, 0x1D6CE, 0x1D708, 0x1D742, 0x1D77C, 0x1D7B6, 0x00475,
   0x005D8, 0x11706, 0x0ABA9, 0x118C0, 0x1D20D, 0x00667, 0x006F7, 0x02164, 0x1D415, 0x1D449,
   0x1D47D, 0x1D4B1, 0x1D4E5, 0x1D519, 0x1D54D, 0x1D581, 0x1D5B5, 0x1D5E9, 0x1D61D, 0x1D651,
   0x1D685, 0x00474, 0x02D38, 0x013D9, 0x0142F, 0x0A6DF, 0x0A4E6, 0x16F08, 0x118A0, 0x1051D,
   0x0026F, 0x1D430, 0x1D464, 0x1D498, 0x1D4CC, 0x1D500, 0x1D534, 0x1D568, 0x1D59C, 0x1D5D0,
   0x1D604, 0x1D638, 0x1D66C, 0x1D6A0, 0x01D21, 0x00461, 0x0051D, 0x00561, 0x1170A, 0x1170E,
   0x1170F, 0x0AB83, 0x118EF, 0x118E6, 0x1D416, 0x1D44A, 0x1D47E, 0x1D4B2, 0x1D4E6, 0x1D51A,
   0x1D54E, 0x1D582, 0x1D5B6, 0x1D5EA, 0x1D61E, 0x1D652, 0x1D686, 0x0051C, 0x013B3, 0x013D4,
   0x0A4EA, 0x0166E, 0x000D7, 0x0292B, 0x0292C, 0x02A2F, 0x0FF58, 0x02179, 0x1D431, 0x1D465,
   0x1D499, 0x1D4CD, 0x1D501, 0x1D535, 0x1D569, 0x1D59D, 0x1D5D1, 0x1D605, 0x1D639, 0x1D66D,
   0x1D6A1, 0x00445, 0x01541, 0x0157D, 0x0166D, 0x02573, 0x10322, 0x118EC, 0x0FF38, 0x02169,
   0x1D417, 0x1D44B, 0x1D47F, 0x1D4B3, 0x1D4E7, 0x1D51B, 0x1D54F, 0x1D583, 0x1D5B7, 0x1D5EB,
   0x1D61F, 0x1D653, 0x1D687, 0x0A7B3, 0x003A7, 0x1D6BE, 0x1D6F8, 0x1D732, 0x1D76C, 0x1D7A6,
   0x02CAC, 0x00425, 0x02D5D, 0x016B7, 0x0A4EB, 0x10290, 0x102B4, 0x10317, 0x10527, 0x00263,
   0x01D8C, 0x0FF59, 0x1D432, 0x1D466, 0x1D49A, 0x1D4CE, 0x1D502, 0x1D536, 0x1D56A, 0x1D59E,
   0x1D5D2, 0x1D606, 0x1D63A, 0x1D66E, 0x1D6A2, 0x0028F, 0x01EFF, 0x0AB5A, 0x003B3, 0x0213D,
   0x1D6C4, 0x1D6FE, 0x1D738, 0x1D772, 0x1D7AC, 0x00443, 0x004AF, 0x010E7, 0x118DC, 0x0FF39,
   0x1D418, 0x1D44C, 0x1D480, 0x1D4B4, 0x1D4E8, 0x1D51C, 0x1D550, 0x1D584, 0x1D5B8, 0x1D5EC,
   0x1D620, 0x1D654, 0x1D688, 0x003A5, 0x003D2, 0x1D6BC, 0x1D6F6, 0x1D730, 0x1D76A, 0x1D7A4,
   0x02CA8, 0x00423, 0x004AE, 0x013A9, 0x013BD, 0x0A4EC, 0x16F43, 0x118A4, 0x102B2, 0x1D433,
   0x1D467, 0x1D49B, 0x1D4CF, 0x1D503, 0x1D537, 0x1D56B, 0x1D59F, 0x1D5D3, 0x1D607, 0x1D63B,
   0x1D66F, 0x1D6A3, 0x01D22, 0x0AB93, 0x118C4, 0x102F5, 0x118E5, 0x0FF3A, 0x02124, 0x02128,
   0x1D419, 0x1D44D, 0x1D481, 0x1D4B5, 0x1D4E9, 0x1D585, 0x1D5B9, 0x1D5ED, 0x1D621, 0x1D655,
   0x1D689, 0x00396, 0x1D6AD, 0x1D6E7, 0x1D721, 0x1D75B, 0x1D795, 0x013C3, 0x0A4DC, 0x118A9
  
  ]"

text \<open>
  \<^verbatim>\<open>rspamd_can_alias_latin\<close> (lines 332 to 348) fills a hash table with the entries of the array on first use
  and then looks the code point up: a membership test on the array.
\<close>

definition rspamd_can_alias_latin :: "int \<Rightarrow> bool" where
  "rspamd_can_alias_latin ch = (ch \<in> set latin_confusable)"

section \<open>Decoding one code point\<close>

text \<open>
  ICU's \<^verbatim>\<open>U8_NEXT (p, i, len, uc)\<close> reads the code point that starts at offset \<open>i\<close> and
  advances \<open>i\<close>; on an ill-formed or truncated sequence \<open>uc\<close> is negative.  The model works
  on the bytes from offset \<open>i\<close> on and returns the code point with the bytes after it.
  The accepted sequences are the well-formed ones of the Unicode standard.  After a failure
  the scorer leaves its loop, so the rest returned with a negative value is never read.
\<close>

definition u8_trail :: "u8 \<Rightarrow> bool" where
  "u8_trail b = (0x80 \<le> b \<and> b \<le> 0xBF)"

fun u8_next :: "u8 list \<Rightarrow> int \<times> u8 list" where
  "u8_next [] = (- 1, [])"
| "u8_next (c # s) =
     (if c \<le> 0x7F then (uint c, s)
      else if 0xC2 \<le> c \<and> c \<le> 0xDF then
        (case s of
           t1 # s1 \<Rightarrow>
             if u8_trail t1
             then (push_bit 6 (uint (c AND 0x1F)) OR uint (t1 AND 0x3F), s1)
             else (- 1, s)
         | _ \<Rightarrow> (- 1, s))
      else if 0xE0 \<le> c \<and> c \<le> 0xEF then
        (case s of
           t1 # t2 # s2 \<Rightarrow>
             if (if c = 0xE0 then 0xA0 \<le> t1 \<and> t1 \<le> 0xBF
                 else if c = 0xED then 0x80 \<le> t1 \<and> t1 \<le> 0x9F
                 else u8_trail t1) \<and> u8_trail t2
             then (push_bit 12 (uint (c AND 0x0F)) OR push_bit 6 (uint (t1 AND 0x3F))
                     OR uint (t2 AND 0x3F), s2)
             else (- 1, s)
         | _ \<Rightarrow> (- 1, s))
      else if 0xF0 \<le> c \<and> c \<le> 0xF4 then
        (case s of
           t1 # t2 # t3 # s3 \<Rightarrow>
             if (if c = 0xF0 then 0x90 \<le> t1 \<and> t1 \<le> 0xBF
                 else if c = 0xF4 then 0x80 \<le> t1 \<and> t1 \<le> 0x8F
                 else u8_trail t1) \<and> u8_trail t2 \<and> u8_trail t3
             then (push_bit 18 (uint (c AND 0x07)) OR push_bit 12 (uint (t1 AND 0x3F))
                     OR push_bit 6 (uint (t2 AND 0x3F)) OR uint (t3 AND 0x3F), s3)
             else (- 1, s)
         | _ \<Rightarrow> (- 1, s))
      else (- 1, s))"

section \<open>Word scorer, Unicode path\<close>

datatype pstate = start_process | got_alpha | got_digit | got_unknown

text \<open>
  The local variables of the two word scorers: those that both have, then those of
  \<^verbatim>\<open>rspamd_chartable_process_word_utf\<close>.  The counter behind the pointer \<open>ncap\<close> is
  \<open>None\<close> when the caller passes a null pointer.
\<close>

record scan_vars =
  badness :: real
  same_script_count :: nat
  state :: pstate

record utf_vars = scan_vars +
  last_is_latin :: int
  nsym :: nat
  prev_state :: pstate
  ncap :: "nat option"

definition utf_init :: "nat option \<Rightarrow> utf_vars" where
  "utf_init nc = \<lparr>badness = 0, same_script_count = 0, state = start_process,
     last_is_latin = - 1, nsym = 0, prev_state = start_process, ncap = nc\<rparr>"

text \<open>The script block of an alphabetic code point after the plugin has folded the
  Latin, IPA, spacing-modifier and diacritic blocks into Basic Latin.\<close>

definition utf_block :: "extlib \<Rightarrow> int \<Rightarrow> int" where
  "utf_block lib uc =
     (let sc = ublock_getCode lib uc
      in if sc \<le> UBLOCK_COMBINING_DIACRITICAL_MARKS \<or> sc = UBLOCK_LATIN_EXTENDED_ADDITIONAL
         then UBLOCK_BASIC_LATIN else sc)"

text \<open>One pass through the body of the \<^verbatim>\<open>while\<close> loop (lines 382 to 450), after a
  successful decoding.\<close>

definition utf_step :: "extlib \<Rightarrow> bool \<Rightarrow> int \<Rightarrow> utf_vars \<Rightarrow> utf_vars" where
  "utf_step lib is_url uc v =
     (if u_isalpha lib uc then
        let sc = utf_block lib uc;
            v1 = (if sc \<noteq> UBLOCK_BASIC_LATIN \<and> u_isupper lib uc
                  then v\<lparr>ncap := map_option Suc (ncap v)\<rparr> else v);
            v2 = (if state v1 = got_digit then
                    (if \<not> is_url \<and> sc \<noteq> UBLOCK_BASIC_LATIN \<and> prev_state v1 \<noteq> start_process
                     then v1\<lparr>badness := dbl_add (badness v1) (1 / 4)\<rparr> else v1)
                  else if state v1 = got_alpha then
                    (if same_script_count v1 > 0 then
                       (if sc \<noteq> UBLOCK_BASIC_LATIN \<and> last_is_latin v1 \<noteq> 0 then
                          (if rspamd_can_alias_latin uc
                           then v1\<lparr>badness :=
                                  dbl_add (badness v1) (dbl_div 1 (real (same_script_count v1)))\<rparr>
                           else v1)\<lparr>last_is_latin := 0, same_script_count := 1\<rparr>
                        else v1\<lparr>same_script_count := Suc (same_script_count v1)\<rparr>)
                     else v1\<lparr>last_is_latin := (if sc = UBLOCK_BASIC_LATIN then 1 else 0),
                            same_script_count := 1\<rparr>)
                  else v1)
        in v2\<lparr>prev_state := state v2, state := got_alpha, nsym := Suc (nsym v2)\<rparr>
      else if u_isdigit lib uc then
        (if state v \<noteq> got_digit then v\<lparr>prev_state := state v\<rparr> else v)
          \<lparr>state := got_digit, same_script_count := 0, nsym := Suc (nsym v)\<rparr>
      else
        (if state v \<noteq> got_unknown then v\<lparr>prev_state := state v\<rparr> else v)
          \<lparr>state := got_unknown, same_script_count := 0, nsym := Suc (nsym v)\<rparr>)"

declare u8_next.simps [simp del]

lemma u8_next_shorter: "u8_next (c # s) = (uc, s') \<Longrightarrow> length s' < Suc (length s)"
  by (auto simp: u8_next.simps split: list.splits if_splits)

text \<open>The \<^verbatim>\<open>while (p + i < end)\<close> loop (lines 375 to 451) on the bytes that are left.\<close>

function utf_loop :: "extlib \<Rightarrow> bool \<Rightarrow> utf_vars \<Rightarrow> u8 list \<Rightarrow> utf_vars" where
  "utf_loop lib is_url v [] = v"
| "utf_loop lib is_url v (c # s) =
     (case u8_next (c # s) of
        (uc, s') \<Rightarrow> if uc < 0 then v else utf_loop lib is_url (utf_step lib is_url uc v) s')"
  by pat_completeness auto
termination
  by (relation "measure (\<lambda>(lib, is_url, v, s). length s)") (auto dest: u8_next_shorter [OF sym])

text \<open>The code points that the loop sees: those decoded before the first failure.\<close>

function u8_decode :: "u8 list \<Rightarrow> int list" where
  "u8_decode [] = []"
| "u8_decode (c # s) =
     (case u8_next (c # s) of (uc, s') \<Rightarrow> if uc < 0 then [] else uc # u8_decode s')"
  by pat_completeness auto
termination
  by (relation "measure length") (auto dest: u8_next_shorter [OF sym])

text \<open>The byte sequences in which the loop meets no failure.\<close>

function u8_wellformed :: "u8 list \<Rightarrow> bool" where
  "u8_wellformed [] = True"
| "u8_wellformed (c # s) =
     (case u8_next (c # s) of (uc, s') \<Rightarrow> 0 \<le> uc \<and> u8_wellformed s')"
  by pat_completeness auto
termination
  by (relation "measure length") (auto dest: u8_next_shorter [OF sym])

text \<open>The code after the loop (lines 453 to 461): long words score nothing, others at most
  \<open>4\<close>.\<close>

definition utf_finish :: "chartable_ctx \<Rightarrow> utf_vars \<Rightarrow> real" where
  "utf_finish ctx v =
     (if nsym v > unat (max_word_len ctx) then 0
      else if badness v > 4 then 4 else badness v)"

definition rspamd_chartable_process_word_utf ::
    "extlib \<Rightarrow> chartable_ctx \<Rightarrow> u8 list \<Rightarrow> bool \<Rightarrow> nat option \<Rightarrow> real \<times> nat option" where
  "rspamd_chartable_process_word_utf lib ctx w is_url nc =
     (let v = utf_loop lib is_url (utf_init nc) w
      in (utf_finish ctx v, ncap v))"

section \<open>Word scorer, byte path\<close>

text \<open>The enumeration of the byte scorer; \<open>last_sc\<close> starts as \<open>0\<close>, which is neither.\<close>

datatype byte_script = sc_unset | ascii | non_ascii

record ascii_vars = scan_vars +
  last_sc :: byte_script
  seen_alpha :: bool

definition ascii_init :: ascii_vars where
  "ascii_init = \<lparr>badness = 0, same_script_count = 0, state = start_process,
     last_sc = sc_unset, seen_alpha = False\<rparr>"

definition g_ascii_isalpha :: "u8 \<Rightarrow> bool" where
  "g_ascii_isalpha c = ((0x41 \<le> c \<and> c \<le> 0x5A) \<or> (0x61 \<le> c \<and> c \<le> 0x7A))"

definition g_ascii_isdigit :: "u8 \<Rightarrow> bool" where
  "g_ascii_isdigit c = (0x30 \<le> c \<and> c \<le> 0x39)"

definition g_ascii_isxdigit :: "u8 \<Rightarrow> bool" where
  "g_ascii_isxdigit c =
     ((0x30 \<le> c \<and> c \<le> 0x39) \<or> (0x41 \<le> c \<and> c \<le> 0x46) \<or> (0x61 \<le> c \<and> c \<le> 0x66))"

text \<open>One pass through the body of the byte loop (lines 499 to 541).  The source gives a byte above
  \<open>0x7f\<close> the enumerator \<^verbatim>\<open>ascii\<close> and any other alphabetic byte \<^verbatim>\<open>non_ascii\<close>.\<close>

definition ascii_step :: "bool \<Rightarrow> u8 \<Rightarrow> ascii_vars \<Rightarrow> ascii_vars" where
  "ascii_step is_url c v =
     (if g_ascii_isalpha c \<or> c > 0x7F then
        let v2 = (if state v = got_digit then
                    (if seen_alpha v \<and> \<not> is_url \<and> \<not> g_ascii_isxdigit c
                     then v\<lparr>badness := dbl_add (badness v) (1 / 4)\<rparr> else v)
                  else if state v = got_alpha then
                    (let sc = (if c > 0x7F then ascii else non_ascii)
                     in if same_script_count v > 0 then
                          (if sc \<noteq> last_sc v
                           then v\<lparr>badness :=
                                    dbl_add (badness v) (dbl_div 1 (real (same_script_count v))),
                                  last_sc := sc, same_script_count := 1\<rparr>
                           else v\<lparr>same_script_count := Suc (same_script_count v)\<rparr>)
                        else v\<lparr>last_sc := sc, same_script_count := 1\<rparr>)
                  else v)
        in v2\<lparr>seen_alpha := True, state := got_alpha\<rparr>
      else if g_ascii_isdigit c then v\<lparr>state := got_digit, same_script_count := 0\<rparr>
      else v\<lparr>state := got_unknown, same_script_count := 0\<rparr>)"

fun ascii_loop :: "bool \<Rightarrow> ascii_vars \<Rightarrow> u8 list \<Rightarrow> ascii_vars" where
  "ascii_loop is_url v [] = v"
| "ascii_loop is_url v (c # s) = ascii_loop is_url (ascii_step is_url c v) s"

definition rspamd_chartable_process_word_ascii ::
    "chartable_ctx \<Rightarrow> u8 list \<Rightarrow> bool \<Rightarrow> real" where
  "rspamd_chartable_process_word_ascii ctx w is_url =
     (if length w > unat (max_word_len ctx) then 0
      else let v = ascii_loop is_url ascii_init w
           in if badness v > 4 then 4 else badness v)"

section \<open>Aggregation and the two symbol callbacks\<close>

text \<open>The \<^verbatim>\<open>for\<close> loop of \<^verbatim>\<open>rspamd_chartable_process_part\<close> (lines 568 to 582) over the
  words of a part, on the pair of \<open>cur_score\<close> and \<open>ncap\<close>.\<close>

fun part_loop :: "extlib \<Rightarrow> chartable_ctx \<Rightarrow> bool \<Rightarrow> real \<times> nat option \<Rightarrow>
    rspamd_stat_token list \<Rightarrow> real \<times> nat option" where
  "part_loop lib ctx utf acc [] = acc"
| "part_loop lib ctx utf (cur_score, nc) (w # ws) =
     part_loop lib ctx utf
       (if tok_bytes w \<noteq> [] \<and> flag_text w then
          (if utf then
             (let (b, nc') = rspamd_chartable_process_word_utf lib ctx (tok_bytes w) False nc
              in (dbl_add cur_score b, nc'))
           else (dbl_add cur_score (rspamd_chartable_process_word_ascii ctx (tok_bytes w) False),
                 nc))
        else (cur_score, nc))
       ws"

text \<open>\<^verbatim>\<open>rspamd_chartable_process_part\<close> (lines 554 to 602).  The result is the detection
  inserted into the task, if any, and the part with its updated count of capital letters.\<close>

fun rspamd_chartable_process_part :: "extlib \<Rightarrow> chartable_ctx \<Rightarrow>
    rspamd_mime_text_part option \<Rightarrow> detection option \<times> rspamd_mime_text_part option" where
  "rspamd_chartable_process_part lib ctx None = (None, None)"
| "rspamd_chartable_process_part lib ctx (Some part) =
     (case normalized_words part of
        None \<Rightarrow> (None, Some part)
      | Some ws \<Rightarrow>
          if length ws = 0 then (None, Some part)
          else
            let (sum_score, nc) = part_loop lib ctx (part_utf part) (0, Some 0) ws;
                part' = part\<lparr>capital_letters :=
                          capital_letters part + (case nc of Some n \<Rightarrow> n | None \<Rightarrow> 0)\<rparr>;
                avg = dbl_div sum_score (real (length ws));
                cur_score = (if avg > 2 then 2 else avg)
            in (if cur_score > threshold ctx then Some (symbol ctx, cur_score, None) else None,
                Some part'))"

record rspamd_url =
  host :: "u8 list"

record rspamd_task =
  text_parts :: "rspamd_mime_text_part option list"
  subject :: "u8 list option"
  urls :: "rspamd_url list"
  emails :: "rspamd_url list"

fun parts_loop :: "extlib \<Rightarrow> chartable_ctx \<Rightarrow> rspamd_mime_text_part option list \<Rightarrow>
    detection list \<times> rspamd_mime_text_part option list" where
  "parts_loop lib ctx [] = ([], [])"
| "parts_loop lib ctx (p # ps) =
     (let (d, p') = rspamd_chartable_process_part lib ctx p;
          (ds, ps') = parts_loop lib ctx ps
      in ((case d of Some x \<Rightarrow> [x] | None \<Rightarrow> []) @ ds, p' # ps'))"

fun subject_loop :: "extlib \<Rightarrow> chartable_ctx \<Rightarrow> real \<Rightarrow> rspamd_stat_token list \<Rightarrow> real" where
  "subject_loop lib ctx cur_score [] = cur_score"
| "subject_loop lib ctx cur_score (w # ws) =
     subject_loop lib ctx
       (dbl_add cur_score
          (fst (rspamd_chartable_process_word_utf lib ctx (tok_bytes w) False None))) ws"

definition subject_result :: "extlib \<Rightarrow> chartable_ctx \<Rightarrow> u8 list option \<Rightarrow> detection option" where
  "subject_result lib ctx subj =
     (case subj of
        None \<Rightarrow> None
      | Some s \<Rightarrow>
          (case rspamd_tokenize_text lib s of
             None \<Rightarrow> None
           | Some ws \<Rightarrow>
               if length ws > 0 then
                 let avg = dbl_div (subject_loop lib ctx 0 ws) (real (length ws));
                     cur_score = (if avg > 2 then 2 else avg)
                 in if cur_score > threshold ctx
                    then Some (symbol ctx, cur_score, Some ''subject'') else None
               else None))"

text \<open>\<^verbatim>\<open>chartable_symbol_callback\<close> (lines 604 to 652): the detections inserted, in order,
  and the parts.\<close>

definition chartable_symbol_callback :: "extlib \<Rightarrow> chartable_ctx \<Rightarrow> rspamd_task \<Rightarrow>
    detection list \<times> rspamd_mime_text_part option list" where
  "chartable_symbol_callback lib ctx task =
     (let (ds, ps') = parts_loop lib ctx (text_parts task)
      in (ds @ (case subject_result lib ctx (subject task) of Some x \<Rightarrow> [x] | None \<Rightarrow> []),
          ps'))"

text \<open>
  One of the two \<^verbatim>\<open>while\<close> loops of \<^verbatim>\<open>chartable_url_symbol_callback\<close> (lines 654 to
  719) over a hash table, given as the list of its entries in the order of the iteration.
\<close>

fun url_loop :: "extlib \<Rightarrow> chartable_ctx \<Rightarrow> real \<Rightarrow> rspamd_url list \<Rightarrow> real" where
  "url_loop lib ctx cur_score [] = cur_score"
| "url_loop lib ctx cur_score (u # us) =
     (if cur_score > 2 then 2
      else url_loop lib ctx
        (if length (host u) > 0 then
           (if g_utf8_validate lib (host u)
            then dbl_add cur_score
                   (fst (rspamd_chartable_process_word_utf lib ctx (host u) True None))
            else dbl_add cur_score (rspamd_chartable_process_word_ascii ctx (host u) True))
         else cur_score)
        us)"

definition chartable_url_symbol_callback ::
    "extlib \<Rightarrow> chartable_ctx \<Rightarrow> rspamd_task \<Rightarrow> detection option" where
  "chartable_url_symbol_callback lib ctx task =
     (let cur_score = url_loop lib ctx (url_loop lib ctx 0 (urls task)) (emails task)
      in if cur_score > threshold ctx then Some (symbol ctx, cur_score, None) else None)"

section \<open>Configuration\<close>

text \<open>
  The options of the module as the configuration holds them: absent, or a value.  A
  \<open>threshold\<close> that is present but not a number is \<open>Some None\<close>.  An integer read for
  \<open>max_word_len\<close> is stored into a \<^verbatim>\<open>guint\<close>.
\<close>

record chartable_opts =
  opt_symbol :: "string option"
  opt_url_symbol :: "string option"
  opt_threshold :: "real option option"
  opt_max_word_len :: "int option"

datatype callback = Symbol_callback | Url_symbol_callback

text \<open>\<^verbatim>\<open>chartable_module_init\<close>: a zeroed context with \<open>max_word_len = 10\<close>; a null
  string is the empty one.\<close>

definition chartable_module_init :: chartable_ctx where
  "chartable_module_init = \<lparr>symbol = [], url_symbol = [], threshold = 0, max_word_len = 10\<rparr>"

text \<open>\<^verbatim>\<open>chartable_module_config\<close> (lines 106 to 167): the context, and the callbacks
  registered in the symbol cache with the name each is registered under.\<close>

definition chartable_module_config :: "bool \<Rightarrow> chartable_opts \<Rightarrow> chartable_ctx \<Rightarrow>
    chartable_ctx \<times> (string \<times> callback) list" where
  "chartable_module_config enabled opts ctx0 =
     (if \<not> enabled then (ctx0, [])
      else
        let c1 = ctx0\<lparr>symbol := (case opt_symbol opts of Some s \<Rightarrow> s | None \<Rightarrow> DEFAULT_SYMBOL)\<rparr>;
            c2 = c1\<lparr>url_symbol :=
                     (case opt_url_symbol opts of Some s \<Rightarrow> s | None \<Rightarrow> DEFAULT_URL_SYMBOL)\<rparr>;
            c3 = (case opt_threshold opts of
                    Some (Some t) \<Rightarrow> c2\<lparr>threshold := t\<rparr>
                  | Some None \<Rightarrow> c2\<lparr>threshold := DEFAULT_THRESHOLD\<rparr>
                  | None \<Rightarrow> c2\<lparr>threshold := DEFAULT_THRESHOLD\<rparr>);
            c4 = (case opt_max_word_len opts of
                    Some n \<Rightarrow> c3\<lparr>max_word_len := word_of_int n\<rparr>
                  | None \<Rightarrow> c3\<lparr>threshold := DEFAULT_THRESHOLD\<rparr>)
        in (c4, [(symbol c4, Symbol_callback), (url_symbol c4, Url_symbol_callback)]))"

definition no_opts :: chartable_opts where
  "no_opts = \<lparr>opt_symbol = None, opt_url_symbol = None, opt_threshold = None,
     opt_max_word_len = None\<rparr>"

definition default_ctx :: chartable_ctx where
  "default_ctx = fst (chartable_module_config True no_opts chartable_module_init)"

section \<open>A fragment of the character database\<close>

text \<open>
  To run the scorers on concrete words the examples use the values that ICU gives on
  ASCII, on the Greek letters and on the Cyrillic letters \<open>U+0410\<close> to \<open>U+044F\<close>, with
  the block codes up to \<open>U+04FF\<close>.  Outside these ranges \<open>ucd_fragment\<close> knows no letter
  and no digit, so it is used only on words inside them.  Its \<open>g_utf8_validate\<close> accepts the
  well-formed sequences without a zero byte.  No example has a subject line, so its tokenizer
  returns no words.
\<close>

definition ucd_fragment :: extlib where
  "ucd_fragment = \<lparr>
     u_isalpha = (\<lambda>c. (0x41 \<le> c \<and> c \<le> 0x5A) \<or> (0x61 \<le> c \<and> c \<le> 0x7A)
        \<or> (0x391 \<le> c \<and> c \<le> 0x3A9 \<and> c \<noteq> 0x3A2) \<or> (0x3B1 \<le> c \<and> c \<le> 0x3C9)
        \<or> (0x410 \<le> c \<and> c \<le> 0x44F)),
     u_isdigit = (\<lambda>c. 0x30 \<le> c \<and> c \<le> 0x39),
     u_isupper = (\<lambda>c. (0x41 \<le> c \<and> c \<le> 0x5A)
        \<or> (0x391 \<le> c \<and> c \<le> 0x3A9 \<and> c \<noteq> 0x3A2) \<or> (0x410 \<le> c \<and> c \<le> 0x42F)),
     ublock_getCode = (\<lambda>c. if c < 0 then 0 else if c \<le> 0x7F then 1 else if c \<le> 0xFF then 2
        else if c \<le> 0x17F then 3 else if c \<le> 0x24F then 4 else if c \<le> 0x2AF then 5
        else if c \<le> 0x2FF then 6 else if c \<le> 0x36F then 7 else if c \<le> 0x3FF then 8
        else if c \<le> 0x4FF then 9 else 0),
     g_utf8_validate = (\<lambda>s. u8_wellformed s \<and> 0 \<notin> set s),
     rspamd_tokenize_text = (\<lambda>s. None)\<rparr>"

section \<open>Example inputs\<close>

text \<open>\<open>U+03C9 i n d o w\<close> in UTF-8: a Greek omega before the Latin letters \<open>indow\<close>.\<close>

definition omega_indow :: "u8 list" where
  "omega_indow = [0xCF, 0x89, 0x69, 0x6E, 0x64, 0x6F, 0x77]"

text \<open>The host \<open>p a U+0443 p a l . c o m\<close> in UTF-8: the third letter is the Cyrillic u.\<close>

definition paypal_host :: "u8 list" where
  "paypal_host = [0x70, 0x61, 0xD1, 0x83, 0x70, 0x61, 0x6C, 0x2E, 0x63, 0x6F, 0x6D]"

text \<open>A body part whose only word is the text word \<open>omega_indow\<close>, flagged as UTF-8 or
  not, and a message that has this part, no subject, no URL and no email address.\<close>

definition omega_indow_part :: "bool \<Rightarrow> rspamd_mime_text_part" where
  "omega_indow_part utf = \<lparr>part_utf = utf,
     normalized_words = Some [\<lparr>tok_bytes = omega_indow, flag_text = True\<rparr>],
     capital_letters = 0\<rparr>"

definition omega_indow_task :: "bool \<Rightarrow> rspamd_task" where
  "omega_indow_task utf = \<lparr>text_parts = [Some (omega_indow_part utf)], subject = None,
     urls = [], emails = []\<rparr>"

section \<open>Notions used in the properties\<close>

text \<open>The variables of the Unicode scorer after its loop has seen the code points \<open>cs\<close>.\<close>

definition utf_scan :: "extlib \<Rightarrow> bool \<Rightarrow> nat option \<Rightarrow> int list \<Rightarrow> utf_vars" where
  "utf_scan lib is_url nc cs = foldl (\<lambda>v uc. utf_step lib is_url uc v) (utf_init nc) cs"

text \<open>The code points that take the digit branch of the Unicode loop.\<close>

definition is_digit_cp :: "extlib \<Rightarrow> int \<Rightarrow> bool" where
  "is_digit_cp lib uc = (\<not> u_isalpha lib uc \<and> u_isdigit lib uc)"

text \<open>The bytes that take the alphabetic branch of the byte loop, and those that take its
  digit branch.\<close>

definition is_alpha_byte :: "u8 \<Rightarrow> bool" where
  "is_alpha_byte c = (g_ascii_isalpha c \<or> c > 0x7F)"

definition is_digit_byte :: "u8 \<Rightarrow> bool" where
  "is_digit_byte c = (\<not> is_alpha_byte c \<and> g_ascii_isdigit c)"

text \<open>The variables of the byte scorer after its loop has seen the bytes \<open>s\<close>.\<close>

definition ascii_scan :: "bool \<Rightarrow> u8 list \<Rightarrow> ascii_vars" where
  "ascii_scan is_url s = ascii_loop is_url ascii_init s"

text \<open>The enumerator that the byte scorer gives an alphabetic byte.\<close>

definition byte_bucket :: "u8 \<Rightarrow> byte_script" where
  "byte_bucket c = (if c > 0x7F then ascii else non_ascii)"

text \<open>Letters of the Latin bucket, and letters outside it that are in the confusable set.\<close>

definition is_latin_letter :: "extlib \<Rightarrow> int \<Rightarrow> bool" where
  "is_latin_letter lib uc = (u_isalpha lib uc \<and> utf_block lib uc = UBLOCK_BASIC_LATIN)"

definition is_confusable_letter :: "extlib \<Rightarrow> int \<Rightarrow> bool" where
  "is_confusable_letter lib uc =
     (u_isalpha lib uc \<and> utf_block lib uc \<noteq> UBLOCK_BASIC_LATIN \<and> rspamd_can_alias_latin uc)"

text \<open>\<open>alternates P Q xs\<close>: the elements of \<open>xs\<close> satisfy \<open>P\<close>, \<open>Q\<close>, \<open>P\<close>, \<open>Q\<close>, and so on.\<close>

fun alternates :: "('a \<Rightarrow> bool) \<Rightarrow> ('a \<Rightarrow> bool) \<Rightarrow> 'a list \<Rightarrow> bool" where
  "alternates P Q [] = True"
| "alternates P Q (x # xs) = (P x \<and> alternates Q P xs)"

text \<open>
  The average of a part in the words of the specification: a word of length zero or without
  the text flag adds nothing to the sum, which runs over the other words in their order, and
  the sum is divided by the number of all words.
\<close>

definition scored_word :: "rspamd_stat_token \<Rightarrow> bool" where
  "scored_word w = (tok_bytes w \<noteq> [] \<and> flag_text w)"

definition word_score :: "extlib \<Rightarrow> chartable_ctx \<Rightarrow> bool \<Rightarrow> rspamd_stat_token \<Rightarrow> real" where
  "word_score lib ctx utf w =
     (if utf then fst (rspamd_chartable_process_word_utf lib ctx (tok_bytes w) False None)
      else rspamd_chartable_process_word_ascii ctx (tok_bytes w) False)"

definition part_sum :: "extlib \<Rightarrow> chartable_ctx \<Rightarrow> bool \<Rightarrow> rspamd_stat_token list \<Rightarrow> real" where
  "part_sum lib ctx utf ws =
     foldl dbl_add 0 (map (word_score lib ctx utf) (filter scored_word ws))"

definition part_average :: "extlib \<Rightarrow> chartable_ctx \<Rightarrow> bool \<Rightarrow> rspamd_stat_token list \<Rightarrow> real" where
  "part_average lib ctx utf ws = dbl_div (part_sum lib ctx utf ws) (real (length ws))"

section \<open>Facts about the double arithmetic\<close>

lemma round_even_of_int: "round_even (of_int k) = k"
  by (simp add: round_even_def)

lemma round_even_error: "\<bar>of_int (round_even r) - r\<bar> \<le> 1 / 2"
  by (simp add: round_even_def Let_def)

lemma round_even_ge: "of_int a \<le> r \<Longrightarrow> a \<le> round_even r"
proof -
  assume "of_int a \<le> r"
  then have "a \<le> \<lfloor>r\<rfloor>" by (simp add: le_floor_iff)
  then show ?thesis by (auto simp: round_even_def Let_def)
qed

lemma round_even_le: "r \<le> of_int b \<Longrightarrow> round_even r \<le> b"
proof -
  assume a: "r \<le> of_int b"
  then have f: "\<lfloor>r\<rfloor> \<le> b" by (simp add: floor_le_iff)
  show ?thesis
  proof (cases "\<lfloor>r\<rfloor> = b")
    case True
    with a have "r - of_int \<lfloor>r\<rfloor> \<le> 0" by simp
    then show ?thesis using True by (simp add: round_even_def Let_def)
  next
    case False
    with f have "\<lfloor>r\<rfloor> + 1 \<le> b" by simp
    then show ?thesis by (auto simp: round_even_def Let_def)
  qed
qed

lemma two_powr_int: "(2::real) powr real_of_int k = 2 powi k"
  by (simp add: powr_real_of_int')

lemma floor_log2_iff:
  "0 < x \<Longrightarrow> (\<lfloor>log 2 x\<rfloor> = e) = (2 powi e \<le> x \<and> x < 2 powi (e + 1))"
  using floor_log_eq_powr_iff [of x 2 e] by (simp only: two_powr_int)

lemma floor_log2_eq:
  assumes "0 < x" and "2 powi e \<le> x" and "x < 2 powi (e + 1)"
  shows "\<lfloor>log 2 x\<rfloor> = e"
  using assms by (simp add: floor_log2_iff)

lemma two_powi_floor_log2_le:
  assumes "0 < x"
  shows "2 powi \<lfloor>log 2 x\<rfloor> \<le> x" and "x < 2 powi (\<lfloor>log 2 x\<rfloor> + 1)"
  using floor_log2_iff [OF assms, of "\<lfloor>log 2 x\<rfloor>"] by simp_all

lemma b64_round_eval:
  assumes "0 < x" and "2 powi e \<le> x" and "x < 2 powi (e + 1)"
  shows "b64_round x = of_int (round_even (x / 2 powi (e - 52))) * 2 powi (e - 52)"
  using assms floor_log2_eq [OF assms] by (simp add: b64_round_def Let_def)

lemma b64_round_nonneg: "0 \<le> x \<Longrightarrow> 0 \<le> b64_round x"
proof (cases "x = 0")
  case True
  then show ?thesis by (simp add: b64_round_def)
next
  case False
  assume "0 \<le> x"
  with False have "0 \<le> x / 2 powi (\<lfloor>log 2 \<bar>x\<bar>\<rfloor> - 52)" by simp
  then have "0 \<le> round_even (x / 2 powi (\<lfloor>log 2 \<bar>x\<bar>\<rfloor> - 52))"
    using round_even_ge [of 0] by simp
  then show ?thesis by (simp add: b64_round_def Let_def)
qed

lemma b64_round_error:
  assumes "0 < x"
  shows "\<bar>b64_round x - x\<bar> \<le> x / 2 ^ 53"
proof -
  define e where "e = \<lfloor>log 2 x\<rfloor>"
  define u :: real where "u = 2 powi (e - 52)"
  have u: "0 < u" by (simp add: u_def)
  have lo: "2 powi e \<le> x" unfolding e_def using assms by (rule two_powi_floor_log2_le)
  have r: "b64_round x = of_int (round_even (x / u)) * u"
    using assms by (simp add: b64_round_def e_def u_def Let_def)
  have "of_int (round_even (x / u)) * u - x = (of_int (round_even (x / u)) - x / u) * u"
    using u by (simp add: field_simps)
  then have "\<bar>of_int (round_even (x / u)) * u - x\<bar> = \<bar>of_int (round_even (x / u)) - x / u\<bar> * u"
    using u by (simp add: abs_mult)
  also have "\<dots> \<le> (1 / 2) * u"
    using round_even_error [of "x / u"] u by (intro mult_right_mono) simp_all
  also have "(1 / 2) * u = 2 powi e / 2 ^ 53"
    by (simp add: u_def power_int_diff)
  also have "\<dots> \<le> x / 2 ^ 53" using lo by (simp add: divide_right_mono)
  finally show ?thesis by (simp add: r)
qed

lemma b64_round_idem:
  assumes "0 \<le> x"
  shows "b64_round (b64_round x) = b64_round x"
proof (cases "x = 0")
  case True
  then show ?thesis by (simp add: b64_round_def)
next
  case False
  with assms have x: "0 < x" by simp
  define e where "e = \<lfloor>log 2 x\<rfloor>"
  define u :: real where "u = 2 powi (e - 52)"
  define k where "k = round_even (x / u)"
  have u: "0 < u" by (simp add: u_def)
  have lo: "2 powi e \<le> x" and hi: "x < 2 powi (e + 1)"
    unfolding e_def using x by (rule two_powi_floor_log2_le)+
  have r: "b64_round x = of_int k * u"
    using x by (simp add: b64_round_def e_def u_def k_def Let_def)
  have pe: "2 powi e = 2 ^ 52 * u" and pe1: "2 powi (e + 1) = 2 ^ 53 * u"
    by (simp_all add: u_def power_int_diff power_int_add)
  from lo pe u have "of_int (2 ^ 52) \<le> x / u" by (simp add: field_simps)
  then have k_lo: "2 ^ 52 \<le> k" unfolding k_def by (rule round_even_ge)
  from hi pe1 u have "x / u \<le> of_int (2 ^ 53)" by (simp add: field_simps)
  then have k_hi: "k \<le> 2 ^ 53" unfolding k_def by (rule round_even_le)
  from k_lo have kpos: "0 < of_int k * u" using u by simp
  show ?thesis
  proof (cases "k = 2 ^ 53")
    case True
    then have y: "of_int k * u = 2 powi (e + 1)" by (simp add: pe1)
    have u2: "(2::real) powi (e + 1 - 52) = 2 * u"
      by (simp add: u_def power_int_diff power_int_add)
    have q: "(2::real) powi (e + 1) / (2 * u) = of_int (2 ^ 52)"
      using u by (simp add: pe1)
    have "b64_round (2 powi (e + 1))
        = of_int (round_even (2 powi (e + 1) / 2 powi (e + 1 - 52))) * 2 powi (e + 1 - 52)"
      by (rule b64_round_eval) (simp_all add: power_int_add)
    also have "\<dots> = of_int (round_even (of_int (2 ^ 52))) * (2 * u)"
      by (simp only: u2 q)
    also have "\<dots> = 2 powi (e + 1)"
      by (simp only: round_even_of_int) (simp add: pe1)
    finally show ?thesis by (simp add: r y)
  next
    case False
    with k_hi have "k < 2 ^ 53" by simp
    then have "k + 1 \<le> 2 ^ 53" by simp
    then have "real_of_int (k + 1) \<le> real_of_int (2 ^ 53)" by (simp only: of_int_le_iff)
    then have "real_of_int k < 2 ^ 53" by simp
    then have yhi: "of_int k * u < 2 powi (e + 1)" using u by (simp add: pe1)
    from k_lo have "real_of_int (2 ^ 52) \<le> real_of_int k" by (simp only: of_int_le_iff)
    then have "(2::real) ^ 52 \<le> of_int k" by simp
    then have ylo: "2 powi e \<le> of_int k * u" using u by (simp add: pe)
    have "b64_round (of_int k * u)
        = of_int (round_even (of_int k * u / 2 powi (e - 52))) * 2 powi (e - 52)"
      using kpos ylo yhi by (rule b64_round_eval)
    also have "of_int k * u / 2 powi (e - 52) = of_int k" by (simp add: u_def)
    finally show ?thesis by (simp add: r round_even_of_int u_def)
  qed
qed

lemma b64_round_exact:
  assumes "0 < x" and "2 powi e \<le> x" and "x < 2 powi (e + 1)"
    and "x / 2 powi (e - 52) = of_int k"
  shows "b64_round x = x"
proof -
  have "b64_round x = of_int (round_even (of_int k)) * 2 powi (e - 52)"
    using b64_round_eval [OF assms(1-3)] by (simp only: assms(4))
  also have "\<dots> = x / 2 powi (e - 52) * 2 powi (e - 52)"
    by (simp only: round_even_of_int assms(4))
  finally show ?thesis by simp
qed

lemma dbl_add_zero: "0 \<le> x \<Longrightarrow> dbl_add 0 (b64_round x) = b64_round x"
  by (simp add: dbl_add_def b64_round_idem)

lemma dbl_div_le_2:
  assumes "0 < n"
  shows "dbl_div 1 (real n) \<le> 2"
proof -
  have p: "0 < 1 / real n" using assms by simp
  have "1 / real n \<le> 1" using assms by (simp add: field_simps)
  moreover from b64_round_error [OF p]
  have "b64_round (1 / real n) \<le> 1 / real n + (1 / real n) / 2 ^ 53" by linarith
  moreover have "(1 / real n) / 2 ^ 53 \<le> 1 / real n" using assms by (simp add: field_simps)
  ultimately show ?thesis by (simp add: dbl_div_def)
qed

lemma dbl_div_strict:
  assumes "0 < m" and "m < n" and "n < 2 ^ 32"
  shows "dbl_div 1 (real n) < dbl_div 1 (real m)"
proof -
  define eps :: real where "eps = 1 / 2 ^ 53"
  have pn: "0 < 1 / real n" and pm: "0 < 1 / real m" using assms by simp_all
  from b64_round_error [OF pn]
  have un: "b64_round (1 / real n) \<le> (1 + eps) / real n"
    by (simp add: eps_def add_divide_distrib)
  from b64_round_error [OF pm]
  have lm: "(1 - eps) / real m \<le> b64_round (1 / real m)"
    by (simp add: eps_def diff_divide_distrib)
  from assms have mn: "real m + 1 \<le> real n" by linarith
  from assms have nb: "real n < 2 ^ 32"
    by (metis of_nat_less_iff of_nat_numeral of_nat_power)
  have e0: "0 < eps" "eps < 1" by (simp_all add: eps_def)
  have "2 * eps * real n < 1"
  proof -
    have "2 * eps * real n < 2 * eps * 2 ^ 32" using nb e0 by simp
    also have "\<dots> \<le> 1" by (simp add: eps_def)
    finally show ?thesis .
  qed
  then have "(1 + eps) * (real n - 1) < (1 - eps) * real n" using e0
    by (simp add: algebra_simps)
  moreover have "(1 + eps) * real m \<le> (1 + eps) * (real n - 1)" using mn e0 by simp
  ultimately have "(1 + eps) * real m < (1 - eps) * real n" by linarith
  then have "(1 + eps) / real n < (1 - eps) / real m"
    using assms by (simp add: field_simps)
  with un lm show ?thesis by (simp add: dbl_div_def)
qed

lemma b64_round_tenth: "b64_round (1 / 10) = 3602879701896397 / 36028797018963968"
  using b64_round_eval [of "1 / 10" "- 4"] by (simp add: round_even_def)

lemma b64_exact:
  "b64_round 0 = 0" "b64_round 1 = 1" "b64_round 2 = 2" "b64_round 3 = 3" "b64_round (1 / 2) = 1 / 2"
  "b64_round (1 / 4) = 1 / 4" "b64_round (3 / 2) = 3 / 2"
  using b64_round_eval [of 1 0] b64_round_eval [of 2 1] b64_round_eval [of 3 1]
    b64_round_eval [of "1 / 2" "- 1"] b64_round_eval [of "1 / 4" "- 2"]
    b64_round_eval [of "3 / 2" 0]
  by (simp_all add: round_even_def b64_round_def)

lemmas dbl_defs = dbl_add_def dbl_div_def b64_exact

lemma dbl_div_one: "dbl_div 1 1 = 1"
  by (simp add: dbl_defs)

lemma dbl_add_zero_div: "0 < n \<Longrightarrow> dbl_add 0 (dbl_div 1 (real n)) = dbl_div 1 (real n)"
  by (simp add: dbl_div_def dbl_add_zero)

section \<open>Facts about the loops\<close>

lemmas ctx_defs = default_ctx_def chartable_module_config_def no_opts_def
  chartable_module_init_def DEFAULT_SYMBOL_def DEFAULT_URL_SYMBOL_def Let_def

lemmas block_defs = utf_block_def UBLOCK_BASIC_LATIN_def UBLOCK_COMBINING_DIACRITICAL_MARKS_def
  UBLOCK_LATIN_EXTENDED_ADDITIONAL_def Let_def

lemmas utf_defs = rspamd_chartable_process_word_utf_def utf_init_def utf_finish_def utf_step_def
  u8_trail_def u8_next.simps

lemmas ascii_defs = rspamd_chartable_process_word_ascii_def ascii_init_def ascii_step_def
  g_ascii_isalpha_def g_ascii_isdigit_def g_ascii_isxdigit_def

lemma default_ctx_fields:
  "symbol default_ctx = ''R_MIXED_CHARSET''" "url_symbol default_ctx = ''R_MIXED_CHARSET_URL''"
  "threshold default_ctx = DEFAULT_THRESHOLD" "max_word_len default_ctx = 10"
  by (simp_all add: ctx_defs)

lemma default_threshold_value: "DEFAULT_THRESHOLD = 3602879701896397 / 36028797018963968"
  by (simp add: DEFAULT_THRESHOLD_def b64_round_tenth)

lemma default_threshold_double: "threshold default_ctx = b64_round (1 / 10)"
  by (simp add: ctx_defs DEFAULT_THRESHOLD_def)

lemma cyrillic_u_confusable: "rspamd_can_alias_latin 0x443"
  by (simp add: rspamd_can_alias_latin_def latin_confusable_def)

lemma utf_loop_decode:
  "utf_loop lib is_url v s = foldl (\<lambda>v uc. utf_step lib is_url uc v) v (u8_decode s)"
  by (induction lib is_url v s rule: utf_loop.induct) (auto split: prod.splits)

lemma nsym_utf_step: "nsym (utf_step lib is_url uc v) = Suc (nsym v)"
  by (simp add: utf_step_def Let_def)

lemma nsym_foldl:
  "nsym (foldl (\<lambda>v uc. utf_step lib is_url uc v) v cs) = nsym v + length cs"
  by (induction cs arbitrary: v) (simp_all add: nsym_utf_step)

lemma nsym_utf_loop: "nsym (utf_loop lib is_url v s) = nsym v + length (u8_decode s)"
  by (simp add: utf_loop_decode nsym_foldl)

lemma utf_loop_scan: "utf_loop lib is_url (utf_init nc) w = utf_scan lib is_url nc (u8_decode w)"
  by (simp add: utf_scan_def utf_loop_decode)

lemma utf_scan_snoc:
  "utf_scan lib is_url nc (cs @ [uc]) = utf_step lib is_url uc (utf_scan lib is_url nc cs)"
  by (simp add: utf_scan_def)

lemma utf_scan_Nil: "utf_scan lib is_url nc [] = utf_init nc"
  by (simp add: utf_scan_def)

lemma utf_step_state_not_start: "state (utf_step lib is_url uc v) \<noteq> start_process"
  by (simp add: utf_step_def Let_def)

lemma utf_scan_state_start:
  "(state (utf_scan lib is_url nc cs) = start_process) = (cs = [])"
proof (cases cs rule: rev_cases)
  case Nil
  then show ?thesis by (simp add: utf_scan_Nil utf_init_def)
next
  case (snoc ys y)
  then show ?thesis by (simp add: utf_scan_snoc utf_step_state_not_start)
qed

lemma utf_step_digit:
  "is_digit_cp lib d \<Longrightarrow>
   utf_step lib is_url d v = v\<lparr>prev_state := (if state v \<noteq> got_digit then state v else prev_state v),
      state := got_digit, same_script_count := 0, nsym := Suc (nsym v)\<rparr>"
  by (simp add: utf_step_def is_digit_cp_def)

lemma utf_digits_run:
  assumes "\<forall>d \<in> set ds. is_digit_cp lib d" and "ds \<noteq> []"
  shows "foldl (\<lambda>v uc. utf_step lib is_url uc v) v ds
     = v\<lparr>prev_state := (if state v \<noteq> got_digit then state v else prev_state v),
         state := got_digit, same_script_count := 0, nsym := nsym v + length ds\<rparr>"
  using assms
proof (induction ds arbitrary: v)
  case Nil
  then show ?case by simp
next
  case (Cons d ds)
  show ?case
  proof (cases "ds = []")
    case True
    with Cons.prems show ?thesis by (simp add: utf_step_digit)
  next
    case False
    with Cons show ?thesis by (simp add: utf_step_digit)
  qed
qed

lemma utf_scan_last_digit:
  "cs \<noteq> [] \<Longrightarrow> (state (utf_scan lib is_url nc cs) = got_digit) = is_digit_cp lib (last cs)"
proof (cases cs rule: rev_cases)
  case Nil
  assume "cs \<noteq> []" with Nil show ?thesis by simp
next
  case (snoc ys y)
  then show ?thesis 
    by (simp add: utf_scan_snoc utf_step_def is_digit_cp_def Let_def)
qed

lemma utf_step_alpha_badness:
  "u_isalpha lib uc \<Longrightarrow>
   badness (utf_step lib is_url uc v) =
     (if state v = got_digit then
        (if \<not> is_url \<and> utf_block lib uc \<noteq> UBLOCK_BASIC_LATIN \<and> prev_state v \<noteq> start_process
         then dbl_add (badness v) (1 / 4) else badness v)
      else if state v = got_alpha \<and> same_script_count v > 0
           \<and> utf_block lib uc \<noteq> UBLOCK_BASIC_LATIN \<and> last_is_latin v \<noteq> 0
           \<and> rspamd_can_alias_latin uc
      then dbl_add (badness v) (dbl_div 1 (real (same_script_count v))) else badness v)"
  by (simp add: utf_step_def Let_def)

lemma utf_digit_run_then_alpha:
  assumes "ds \<noteq> []" and "\<forall>d \<in> set ds. is_digit_cp lib d" and "u_isalpha lib uc"
    and "pre = [] \<or> \<not> is_digit_cp lib (last pre)"
  shows "badness (utf_scan lib is_url nc (pre @ ds @ [uc]))
     = (if \<not> is_url \<and> utf_block lib uc \<noteq> UBLOCK_BASIC_LATIN \<and> pre \<noteq> []
        then dbl_add (badness (utf_scan lib is_url nc pre)) (1 / 4)
        else badness (utf_scan lib is_url nc pre))"
proof -
  define v where "v = utf_scan lib is_url nc pre"
  have nd: "state v \<noteq> got_digit"
    using assms(4) unfolding v_def
    by (cases "pre = []") (simp_all add: utf_scan_Nil utf_init_def utf_scan_last_digit)
  have ps: "(state v = start_process) = (pre = [])"
    unfolding v_def by (rule utf_scan_state_start)
  have "utf_scan lib is_url nc (pre @ ds) = foldl (\<lambda>v uc. utf_step lib is_url uc v) v ds"
    by (simp add: utf_scan_def v_def)
  also have "\<dots> = v\<lparr>prev_state := state v,
         state := got_digit, same_script_count := 0, nsym := nsym v + length ds\<rparr>"
    using utf_digits_run [OF assms(2,1), of is_url v] nd by simp
  finally have mid: "utf_scan lib is_url nc (pre @ ds) = v\<lparr>prev_state := state v,
         state := got_digit, same_script_count := 0, nsym := nsym v + length ds\<rparr>" .
  have "utf_scan lib is_url nc (pre @ ds @ [uc])
      = utf_step lib is_url uc (utf_scan lib is_url nc (pre @ ds))"
    using utf_scan_snoc [of lib is_url nc "pre @ ds" uc] by simp
  then have "badness (utf_scan lib is_url nc (pre @ ds @ [uc]))
      = (if \<not> is_url \<and> utf_block lib uc \<noteq> UBLOCK_BASIC_LATIN \<and> state v \<noteq> start_process
         then dbl_add (badness v) (1 / 4) else badness v)"
    by (simp add: mid utf_step_alpha_badness [OF assms(3)])
  then show ?thesis
    using ps by (simp add: v_def)
qed

lemma ascii_loop_append:
  "ascii_loop is_url v (s @ t) = ascii_loop is_url (ascii_loop is_url v s) t"
  by (induction s arbitrary: v) simp_all

lemma ascii_step_digit:
  "is_digit_byte d \<Longrightarrow> ascii_step is_url d v = v\<lparr>state := got_digit, same_script_count := 0\<rparr>"
  by (simp add: ascii_step_def is_digit_byte_def is_alpha_byte_def)

lemma ascii_digits_run:
  "\<forall>d \<in> set ds. is_digit_byte d \<Longrightarrow> ds \<noteq> [] \<Longrightarrow>
   ascii_loop is_url v ds = v\<lparr>state := got_digit, same_script_count := 0\<rparr>"
proof (induction ds arbitrary: v)
  case Nil
  then show ?case by simp
next
  case (Cons d ds)
  then show ?case by (cases "ds = []") (simp_all add: ascii_step_digit)
qed

lemma ascii_step_seen_alpha:
  "seen_alpha (ascii_step is_url c v) = (seen_alpha v \<or> is_alpha_byte c)"
  by (simp add: ascii_step_def is_alpha_byte_def Let_def)

lemma ascii_loop_seen_alpha:
  "seen_alpha (ascii_loop is_url v s) = (seen_alpha v \<or> (\<exists>b \<in> set s. is_alpha_byte b))"
  by (induction s arbitrary: v) (auto simp: ascii_step_seen_alpha)

lemma ascii_step_alpha_badness:
  "is_alpha_byte c \<Longrightarrow>
   badness (ascii_step is_url c v) =
     (if state v = got_digit then
        (if seen_alpha v \<and> \<not> is_url \<and> \<not> g_ascii_isxdigit c
         then dbl_add (badness v) (1 / 4) else badness v)
      else if state v = got_alpha \<and> same_script_count v > 0 \<and> byte_bucket c \<noteq> last_sc v
      then dbl_add (badness v) (dbl_div 1 (real (same_script_count v))) else badness v)"
  by (simp add: ascii_step_def is_alpha_byte_def byte_bucket_def Let_def)

lemma ascii_digit_run_then_alpha:
  assumes "ds \<noteq> []" and "\<forall>d \<in> set ds. is_digit_byte d" and "is_alpha_byte c"
  shows "badness (ascii_scan is_url (pre @ ds @ [c]))
     = (if (\<exists>b \<in> set pre. is_alpha_byte b) \<and> \<not> is_url \<and> \<not> g_ascii_isxdigit c
        then dbl_add (badness (ascii_scan is_url pre)) (1 / 4)
        else badness (ascii_scan is_url pre))"
proof -
  define v where "v = ascii_loop is_url ascii_init pre"
  have sa: "seen_alpha v = (\<exists>b \<in> set pre. is_alpha_byte b)"
    by (simp add: v_def ascii_loop_seen_alpha ascii_init_def)
  have "ascii_scan is_url (pre @ ds @ [c])
      = ascii_step is_url c (ascii_loop is_url v ds)"
    by (simp add: ascii_scan_def ascii_loop_append v_def)
  also have "ascii_loop is_url v ds = v\<lparr>state := got_digit, same_script_count := 0\<rparr>"
    using assms(2,1) by (rule ascii_digits_run)
  finally show ?thesis
    using sa by (simp add: ascii_step_alpha_badness [OF assms(3)] ascii_scan_def v_def)
qed

lemma ascii_step_alpha_fields:
  "is_alpha_byte c \<Longrightarrow> state v = got_alpha \<Longrightarrow>
   state (ascii_step is_url c v) = got_alpha \<and>
   same_script_count (ascii_step is_url c v)
     = (if same_script_count v > 0 \<and> byte_bucket c = last_sc v then Suc (same_script_count v) else 1) \<and>
   last_sc (ascii_step is_url c v) = byte_bucket c"
  by (simp add: ascii_step_def is_alpha_byte_def byte_bucket_def Let_def)

lemma ascii_same_bucket_run:
  assumes "\<forall>b \<in> set run. is_alpha_byte b \<and> byte_bucket b = B"
    and "state v = got_alpha" and "same_script_count v > 0" and "last_sc v = B"
  shows "state (ascii_loop is_url v run) = got_alpha \<and>
     same_script_count (ascii_loop is_url v run) = same_script_count v + length run \<and>
     last_sc (ascii_loop is_url v run) = B \<and>
     badness (ascii_loop is_url v run) = badness v"
  using assms
proof (induction run arbitrary: v)
  case Nil
  then show ?case by simp
next
  case (Cons b run)
  from Cons.prems have b: "is_alpha_byte b" "byte_bucket b = B" by simp_all
  let ?v = "ascii_step is_url b v"
  from ascii_step_alpha_fields [OF b(1) Cons.prems(2), of is_url] Cons.prems b
  have f: "state ?v = got_alpha" "same_script_count ?v = Suc (same_script_count v)"
    "last_sc ?v = B" by simp_all
  have bad: "badness ?v = badness v"
    using Cons.prems b by (simp add: ascii_step_alpha_badness)
  from Cons.IH [of ?v] Cons.prems(1) f bad show ?case by simp
qed

lemma ascii_first_two:
  assumes "is_alpha_byte x" and "is_alpha_byte b"
  shows "state (ascii_scan is_url [x, b]) = got_alpha \<and>
     same_script_count (ascii_scan is_url [x, b]) = 1 \<and>
     last_sc (ascii_scan is_url [x, b]) = byte_bucket b \<and>
     badness (ascii_scan is_url [x, b]) = 0"
  using assms
  by (simp add: ascii_scan_def ascii_step_def ascii_init_def is_alpha_byte_def byte_bucket_def Let_def)

lemma ascii_run_then_switch:
  assumes "is_alpha_byte x" and "run \<noteq> []"
    and "\<forall>b \<in> set run. is_alpha_byte b \<and> byte_bucket b = B" and "is_alpha_byte c"
  shows "badness (ascii_scan is_url (x # run @ [c]))
     = (if byte_bucket c \<noteq> B then dbl_div 1 (real (length run)) else 0)"
proof -
  from assms(2) obtain b run' where run: "run = b # run'" by (cases run) auto
  with assms(3) have b: "is_alpha_byte b" "byte_bucket b = B"
    and r': "\<forall>b \<in> set run'. is_alpha_byte b \<and> byte_bucket b = B" by simp_all
  define v where "v = ascii_scan is_url [x, b]"
  from ascii_first_two [OF assms(1) b(1), of is_url] b(2)
  have v: "state v = got_alpha" "same_script_count v = 1" "last_sc v = B" "badness v = 0"
    by (simp_all add: v_def)
  define v' where "v' = ascii_loop is_url v run'"
  from ascii_same_bucket_run [OF r', of v is_url] v
  have v': "state v' = got_alpha" "same_script_count v' = length run" "last_sc v' = B"
    "badness v' = 0" by (simp_all add: v'_def run)
  have "ascii_scan is_url (x # run @ [c]) = ascii_step is_url c v'"
    by (simp add: ascii_scan_def v'_def v_def run ascii_loop_append)
  moreover from assms(2) have "0 < length run" by simp
  ultimately show ?thesis
    using v' by (simp add: ascii_step_alpha_badness [OF assms(4)] dbl_add_zero_div)
qed

lemma utf_step_alpha_fields:
  "u_isalpha lib uc \<Longrightarrow>
   state (utf_step lib is_url uc v) = got_alpha \<and>
   same_script_count (utf_step lib is_url uc v)
     = (if state v = got_alpha then
          (if same_script_count v > 0
              \<and> \<not> (utf_block lib uc \<noteq> UBLOCK_BASIC_LATIN \<and> last_is_latin v \<noteq> 0)
           then Suc (same_script_count v) else 1)
        else same_script_count v) \<and>
   last_is_latin (utf_step lib is_url uc v)
     = (if state v = got_alpha then
          (if same_script_count v > 0 then
             (if utf_block lib uc \<noteq> UBLOCK_BASIC_LATIN \<and> last_is_latin v \<noteq> 0 then 0
              else last_is_latin v)
           else if utf_block lib uc = UBLOCK_BASIC_LATIN then 1 else 0)
        else last_is_latin v)"
  by (simp add: utf_step_def Let_def)

lemma utf_step_other_fields:
  "\<not> u_isalpha lib uc \<Longrightarrow>
   state (utf_step lib is_url uc v) \<noteq> got_alpha \<and>
   same_script_count (utf_step lib is_url uc v) = 0 \<and>
   badness (utf_step lib is_url uc v) = badness v \<and>
   last_is_latin (utf_step lib is_url uc v) = last_is_latin v"
  by (simp add: utf_step_def)

lemma utf_scan_non_alpha:
  "\<forall>p \<in> set pre. \<not> u_isalpha lib p \<Longrightarrow>
   state (utf_scan lib is_url nc pre) \<noteq> got_alpha \<and>
   same_script_count (utf_scan lib is_url nc pre) = 0 \<and>
   badness (utf_scan lib is_url nc pre) = 0 \<and>
   last_is_latin (utf_scan lib is_url nc pre) = - 1"
proof (induction pre rule: rev_induct)
  case Nil
  then show ?case by (simp add: utf_scan_Nil utf_init_def)
next
  case (snoc p pre)
  then show ?case by (simp add: utf_scan_snoc utf_step_other_fields)
qed

lemma utf_scan_append:
  "utf_scan lib is_url nc (cs @ ds)
     = foldl (\<lambda>v uc. utf_step lib is_url uc v) (utf_scan lib is_url nc cs) ds"
  by (simp add: utf_scan_def)

lemma utf_first_alpha:
  assumes "\<forall>p \<in> set pre. \<not> u_isalpha lib p" and "u_isalpha lib c1"
  shows "state (utf_scan lib is_url nc (pre @ [c1])) = got_alpha \<and>
     same_script_count (utf_scan lib is_url nc (pre @ [c1])) = 0 \<and>
     last_is_latin (utf_scan lib is_url nc (pre @ [c1])) = - 1"
  using utf_scan_non_alpha [OF assms(1), of is_url nc] assms(2)
  by (simp add: utf_scan_snoc utf_step_alpha_fields)

lemma utf_second_alpha:
  assumes "\<forall>p \<in> set pre. \<not> u_isalpha lib p" and "u_isalpha lib c1" and "u_isalpha lib c2"
  shows "state (utf_scan lib is_url nc (pre @ [c1, c2])) = got_alpha \<and>
     same_script_count (utf_scan lib is_url nc (pre @ [c1, c2])) = 1 \<and>
     last_is_latin (utf_scan lib is_url nc (pre @ [c1, c2]))
       = (if utf_block lib c2 = UBLOCK_BASIC_LATIN then 1 else 0) \<and>
     badness (utf_scan lib is_url nc (pre @ [c1, c2]))
       = badness (utf_scan lib is_url nc (pre @ [c1]))"
proof -
  have "utf_scan lib is_url nc (pre @ [c1, c2])
      = utf_step lib is_url c2 (utf_scan lib is_url nc (pre @ [c1]))"
    using utf_scan_snoc [of lib is_url nc "pre @ [c1]" c2] by simp
  then show ?thesis
    using utf_first_alpha [OF assms(1,2), of is_url nc] assms(3)
    by (simp add: utf_step_alpha_fields utf_step_alpha_badness)
qed

lemma utf_first_alpha_badness:
  assumes "u_isalpha lib c1"
  shows "badness (utf_scan lib is_url nc [c1]) = 0"
  using assms by (simp add: utf_scan_def utf_step_alpha_badness utf_init_def)

lemma process_word_utf_fst:
  "fst (rspamd_chartable_process_word_utf lib ctx w is_url nc)
     = utf_finish ctx (utf_scan lib is_url nc (u8_decode w))"
  by (simp add: rspamd_chartable_process_word_utf_def Let_def utf_loop_scan)

lemma nsym_utf_scan: "nsym (utf_scan lib is_url nc cs) = length cs"
  by (simp add: utf_scan_def nsym_foldl utf_init_def)

lemma two_char_word:
  assumes "u8_decode w = [c1, c2]" and "u_isalpha lib c1"
  shows "fst (rspamd_chartable_process_word_utf lib ctx w is_url nc) = 0"
proof -
  have "badness (utf_scan lib is_url nc [c1, c2]) = 0"
  proof (cases "u_isalpha lib c2")
    case True
    with utf_second_alpha [of "[]" lib c1 c2 is_url nc] assms(2) utf_first_alpha_badness [OF assms(2)]
    show ?thesis by simp
  next
    case False
    have "utf_scan lib is_url nc [c1, c2] = utf_step lib is_url c2 (utf_scan lib is_url nc [c1])"
      using utf_scan_snoc [of lib is_url nc "[c1]" c2] by simp
    with False utf_first_alpha_badness [OF assms(2)] show ?thesis
      by (simp add: utf_step_other_fields)
  qed
  then show ?thesis
    by (simp add: process_word_utf_fst assms(1) utf_finish_def)
qed

lemma utf_latin_run:
  assumes "\<forall>l \<in> set ls. is_latin_letter lib l"
    and "state v = got_alpha" and "same_script_count v > 0"
  shows "state (foldl (\<lambda>v uc. utf_step lib is_url uc v) v ls) = got_alpha \<and>
     same_script_count (foldl (\<lambda>v uc. utf_step lib is_url uc v) v ls)
       = same_script_count v + length ls \<and>
     last_is_latin (foldl (\<lambda>v uc. utf_step lib is_url uc v) v ls) = last_is_latin v \<and>
     badness (foldl (\<lambda>v uc. utf_step lib is_url uc v) v ls) = badness v"
  using assms
proof (induction ls arbitrary: v)
  case Nil
  then show ?case by simp
next
  case (Cons l ls)
  from Cons.prems(1) have l: "u_isalpha lib l" "utf_block lib l = UBLOCK_BASIC_LATIN"
    by (simp_all add: is_latin_letter_def)
  let ?v = "utf_step lib is_url l v"
  from utf_step_alpha_fields [OF l(1), of is_url v] Cons.prems l
  have f: "state ?v = got_alpha" "same_script_count ?v = Suc (same_script_count v)"
    "last_is_latin ?v = last_is_latin v" by simp_all
  have bad: "badness ?v = badness v"
    using Cons.prems l by (simp add: utf_step_alpha_badness)
  from Cons.IH [of ?v] Cons.prems(1) f bad show ?case by simp
qed

lemma utf_run_then_switch:
  assumes "u_isalpha lib x" and "ls \<noteq> []" and "\<forall>l \<in> set ls. is_latin_letter lib l"
    and "is_confusable_letter lib c"
  shows "badness (utf_scan lib is_url nc (x # ls @ [c])) = dbl_div 1 (real (length ls))"
proof -
  from assms(2) obtain l ls' where ls: "ls = l # ls'" by (cases ls) auto
  with assms(3) have l: "u_isalpha lib l" "utf_block lib l = UBLOCK_BASIC_LATIN"
    and r': "\<forall>l \<in> set ls'. is_latin_letter lib l" by (simp_all add: is_latin_letter_def)
  define v where "v = utf_scan lib is_url nc [x, l]"
  from utf_second_alpha [of "[]" lib x l is_url nc] assms(1) l utf_first_alpha_badness [OF assms(1)]
  have v: "state v = got_alpha" "same_script_count v = 1" "last_is_latin v = 1" "badness v = 0"
    by (simp_all add: v_def)
  define v' where "v' = foldl (\<lambda>v uc. utf_step lib is_url uc v) v ls'"
  from utf_latin_run [OF r', of v is_url] v
  have v': "state v' = got_alpha" "same_script_count v' = length ls" "last_is_latin v' = 1"
    "badness v' = 0" by (simp_all add: v'_def ls)
  have "utf_scan lib is_url nc (x # ls @ [c]) = utf_step lib is_url c v'"
    by (simp add: utf_scan_def v'_def v_def ls)
  moreover from assms(4) have "u_isalpha lib c" "utf_block lib c \<noteq> UBLOCK_BASIC_LATIN"
    "rspamd_can_alias_latin c" by (simp_all add: is_confusable_letter_def)
  moreover from assms(2) have "0 < length ls" by simp
  ultimately show ?thesis
    using v' by (simp add: utf_step_alpha_badness dbl_add_zero_div)
qed

lemma utf_after_switch:
  assumes "\<forall>c \<in> set cs. u_isalpha lib c"
    and "state v = got_alpha" and "same_script_count v > 0" and "last_is_latin v = 0"
  shows "badness (foldl (\<lambda>v uc. utf_step lib is_url uc v) v cs) = badness v"
  using assms
proof (induction cs arbitrary: v)
  case Nil
  then show ?case by simp
next
  case (Cons c cs)
  from Cons.prems(1) have c: "u_isalpha lib c" by simp
  let ?v = "utf_step lib is_url c v"
  from utf_step_alpha_fields [OF c, of is_url v] Cons.prems
  have f: "state ?v = got_alpha" "same_script_count ?v > 0" "last_is_latin ?v = 0" by simp_all
  have bad: "badness ?v = badness v"
    using Cons.prems c by (simp add: utf_step_alpha_badness)
  from Cons.IH [of ?v] Cons.prems(1) f bad show ?case by simp
qed

lemma alternates_alpha:
  "alternates (is_latin_letter lib) (is_confusable_letter lib) cs \<or>
   alternates (is_confusable_letter lib) (is_latin_letter lib) cs \<Longrightarrow>
   \<forall>c \<in> set cs. u_isalpha lib c"
  by (induction cs) (auto simp: is_latin_letter_def is_confusable_letter_def)

lemma latin_first_alternation:
  assumes "alternates (is_latin_letter lib) (is_confusable_letter lib) cs"
  shows "badness (utf_scan lib is_url nc cs) = 0"
proof (cases cs)
  case Nil
  then show ?thesis by (simp add: utf_scan_Nil utf_init_def)
next
  case (Cons l cs1)
  with assms have l: "u_isalpha lib l" by (simp add: is_latin_letter_def)
  show ?thesis
  proof (cases cs1)
    case Nil
    with Cons l show ?thesis by (simp add: utf_first_alpha_badness)
  next
    case (Cons c cs2)
    with assms \<open>cs = l # cs1\<close> have c: "u_isalpha lib c" "utf_block lib c \<noteq> UBLOCK_BASIC_LATIN"
      and rest: "alternates (is_latin_letter lib) (is_confusable_letter lib) cs2"
      by (simp_all add: is_confusable_letter_def)
    define v where "v = utf_scan lib is_url nc [l, c]"
    from utf_second_alpha [of "[]" lib l c is_url nc] l c utf_first_alpha_badness [OF l]
    have v: "state v = got_alpha" "same_script_count v = 1" "last_is_latin v = 0" "badness v = 0"
      by (simp_all add: v_def)
    from alternates_alpha [of lib cs2] rest have a: "\<forall>c \<in> set cs2. u_isalpha lib c" by blast
    have "utf_scan lib is_url nc cs = foldl (\<lambda>v uc. utf_step lib is_url uc v) v cs2"
      by (simp add: utf_scan_def v_def \<open>cs = l # cs1\<close> Cons)
    with utf_after_switch [OF a, of v is_url] v show ?thesis by simp
  qed
qed

lemma confusable_first_alternation:
  assumes "alternates (is_confusable_letter lib) (is_latin_letter lib) cs"
  shows "badness (utf_scan lib is_url nc cs) = (if 3 \<le> length cs then 1 else 0)"
proof -
  consider (short0) "cs = []" | (short1) c where "cs = [c]" | (short2) c l where "cs = [c, l]"
    | (long) c l c' cs3 where "cs = c # l # c' # cs3"
    by (cases cs rule: list.exhaust; cases "tl cs"; cases "tl (tl cs)") auto
  then show ?thesis
  proof cases
    case short0
    then show ?thesis by (simp add: utf_scan_Nil utf_init_def)
  next
    case short1
    with assms show ?thesis by (simp add: utf_first_alpha_badness is_confusable_letter_def)
  next
    case short2
    with assms have "u_isalpha lib c" "u_isalpha lib l"
      by (simp_all add: is_confusable_letter_def is_latin_letter_def)
    with utf_second_alpha [of "[]" lib c l is_url nc] utf_first_alpha_badness [of lib c is_url nc]
    show ?thesis by (simp add: short2)
  next
    case long
    with assms have c: "u_isalpha lib c" and l: "is_latin_letter lib l"
      and c': "is_confusable_letter lib c'"
      and rest: "alternates (is_latin_letter lib) (is_confusable_letter lib) cs3"
      by (simp_all add: is_confusable_letter_def)
    define v where "v = utf_scan lib is_url nc [c, l, c']"
    from utf_run_then_switch [OF c _ _ c', of "[l]" is_url nc] l
    have b: "badness v = 1" by (simp add: v_def dbl_div_one)
    from l have l': "u_isalpha lib l" "utf_block lib l = UBLOCK_BASIC_LATIN"
      by (simp_all add: is_latin_letter_def)
    from c' have c'': "u_isalpha lib c'" "utf_block lib c' \<noteq> UBLOCK_BASIC_LATIN"
      by (simp_all add: is_confusable_letter_def)
    have "v = utf_step lib is_url c' (utf_scan lib is_url nc ([] @ [c, l]))"
      by (simp add: v_def utf_scan_def)
    with utf_second_alpha [of "[]" lib c l is_url nc] c l' c''
    have v: "state v = got_alpha" "same_script_count v = 1" "last_is_latin v = 0"
      by (simp_all add: utf_step_alpha_fields)
    from alternates_alpha [of lib cs3] rest have a: "\<forall>c \<in> set cs3. u_isalpha lib c" by blast
    have "utf_scan lib is_url nc cs = foldl (\<lambda>v uc. utf_step lib is_url uc v) v cs3"
      by (simp add: utf_scan_def v_def long)
    with utf_after_switch [OF a, of v is_url] v b long show ?thesis by simp
  qed
qed

lemma utf_step_erase_ncap:
  "(utf_step lib is_url uc v)\<lparr>ncap := None\<rparr> = utf_step lib is_url uc (v\<lparr>ncap := None\<rparr>)"
  by (simp add: utf_step_def Let_def)

lemma foldl_erase_ncap:
  "(foldl (\<lambda>v uc. utf_step lib is_url uc v) v cs)\<lparr>ncap := None\<rparr>
     = foldl (\<lambda>v uc. utf_step lib is_url uc v) (v\<lparr>ncap := None\<rparr>) cs"
  by (induction cs arbitrary: v) (simp_all add: utf_step_erase_ncap)

lemma utf_scan_erase_ncap:
  "(utf_scan lib is_url nc cs)\<lparr>ncap := None\<rparr> = utf_scan lib is_url None cs"
  by (simp add: utf_scan_def foldl_erase_ncap utf_init_def)

lemma utf_finish_erase_ncap: "utf_finish ctx (v\<lparr>ncap := None\<rparr>) = utf_finish ctx v"
  by (simp add: utf_finish_def)

lemma process_word_utf_ncap:
  "fst (rspamd_chartable_process_word_utf lib ctx w is_url nc)
     = fst (rspamd_chartable_process_word_utf lib ctx w is_url None)"
  by (metis process_word_utf_fst utf_finish_erase_ncap utf_scan_erase_ncap)

lemma part_loop_sum:
  "fst (part_loop lib ctx utf (cur_score, nc) ws)
     = foldl dbl_add cur_score (map (word_score lib ctx utf) (filter scored_word ws))"
proof (induction ws arbitrary: cur_score nc)
  case Nil
  then show ?case by simp
next
  case (Cons w ws)
  show ?case
  proof (cases "scored_word w")
    case False
    with Cons.IH [of cur_score nc] show ?thesis
      by (auto simp: scored_word_def)
  next
    case scored: True
    show ?thesis
    proof (cases utf)
      case False
      with scored Cons.IH show ?thesis by (simp add: word_score_def scored_word_def)
    next
      case True
      obtain b nc' where r:
        "rspamd_chartable_process_word_utf lib ctx (tok_bytes w) False nc = (b, nc')"
        by (cases "rspamd_chartable_process_word_utf lib ctx (tok_bytes w) False nc")
      with process_word_utf_ncap [of lib ctx "tok_bytes w" False nc]
      have "b = fst (rspamd_chartable_process_word_utf lib ctx (tok_bytes w) False None)" by simp
      with scored True r Cons.IH [of "dbl_add cur_score b" nc'] show ?thesis
        by (simp add: word_score_def scored_word_def)
    qed
  qed
qed

lemmas ucd_defs = ucd_fragment_def is_digit_cp_def is_latin_letter_def is_confusable_letter_def
  block_defs

lemmas byte_defs = is_alpha_byte_def is_digit_byte_def byte_bucket_def g_ascii_isalpha_def
  g_ascii_isdigit_def g_ascii_isxdigit_def

section \<open>Long words\<close>

text \<open>
  C5.  A word with more scored characters than \<open>max_word_len\<close> scores exactly \<open>0\<close> in both
  scorers.  The Unicode scorer counts in \<open>nsym\<close> the code points it decoded, and sets the
  score to \<open>0\<close> after the scan when that count is above \<open>max_word_len\<close>; the byte scorer
  returns \<open>0\<close> before the scan when the number of bytes is above \<open>max_word_len\<close>.
\<close>

theorem long_word_scores_zero:
  "nsym (utf_loop lib is_url (utf_init nc) w) = length (u8_decode w) \<and>
   (length (u8_decode w) > unat (max_word_len ctx) \<longrightarrow>
      fst (rspamd_chartable_process_word_utf lib ctx w is_url nc) = 0) \<and>
   (length w > unat (max_word_len ctx) \<longrightarrow>
      rspamd_chartable_process_word_ascii ctx w is_url = 0)"
  by (simp add: nsym_utf_loop rspamd_chartable_process_word_utf_def utf_finish_def
      rspamd_chartable_process_word_ascii_def utf_init_def)

text \<open>
  With \<open>max_word_len = 10\<close>: the eleven code points \<open>p a U+0443 p a l . c o m m\<close> for the
  Unicode scorer, and eleven bytes that switch between a letter and a high byte for the byte
  scorer.  One character shorter, the first scores \<open>1\<close> and the second \<open>4\<close>.
\<close>

theorem long_word_scores_zero_witness:
  "max_word_len default_ctx = 10 \<and>
   length (u8_decode (paypal_host @ [0x6D])) = 11 \<and>
   fst (rspamd_chartable_process_word_utf ucd_fragment default_ctx
          (paypal_host @ [0x6D]) False None) = 0 \<and>
   length [0x61 :: u8, 0xFF, 0x61, 0xFF, 0x61, 0xFF, 0x61, 0xFF, 0x61, 0xFF, 0x61] = 11 \<and>
   rspamd_chartable_process_word_ascii default_ctx
     [0x61, 0xFF, 0x61, 0xFF, 0x61, 0xFF, 0x61, 0xFF, 0x61, 0xFF, 0x61] False = 0"
proof -
  have d: "length (u8_decode (paypal_host @ [0x6D])) = 11"
    by (simp add: paypal_host_def u8_next.simps u8_trail_def)
  have l: "length [0x61 :: u8, 0xFF, 0x61, 0xFF, 0x61, 0xFF, 0x61, 0xFF, 0x61, 0xFF, 0x61] = 11"
    by simp
  from long_word_scores_zero [of ucd_fragment False None "paypal_host @ [0x6D]" default_ctx]
    long_word_scores_zero [of ucd_fragment False None
      "[0x61, 0xFF, 0x61, 0xFF, 0x61, 0xFF, 0x61, 0xFF, 0x61, 0xFF, 0x61]" default_ctx]
    d l
  show ?thesis by (simp add: default_ctx_fields)
qed

section \<open>Decoding failures\<close>

lemma u8_next_append:
  assumes "u8_next (c # s) = (uc, s')" and "0 \<le> uc"
  shows "u8_next (c # s @ t) = (uc, s' @ t)"
proof -
  consider (one) "c \<le> 0x7F"
    | (two) "\<not> c \<le> 0x7F" "0xC2 \<le> c \<and> c \<le> 0xDF"
    | (three) "\<not> c \<le> 0x7F" "\<not> (0xC2 \<le> c \<and> c \<le> 0xDF)" "0xE0 \<le> c \<and> c \<le> 0xEF"
    | (four) "\<not> c \<le> 0x7F" "\<not> (0xC2 \<le> c \<and> c \<le> 0xDF)" "\<not> (0xE0 \<le> c \<and> c \<le> 0xEF)"
        "0xF0 \<le> c \<and> c \<le> 0xF4"
    | (bad) "\<not> c \<le> 0x7F" "\<not> (0xC2 \<le> c \<and> c \<le> 0xDF)" "\<not> (0xE0 \<le> c \<and> c \<le> 0xEF)"
        "\<not> (0xF0 \<le> c \<and> c \<le> 0xF4)"
    by blast
  then show ?thesis
  proof cases
    case one
    with assms show ?thesis by (simp add: u8_next.simps)
  next
    case two
    with assms show ?thesis
      by (auto simp: u8_next.simps split: list.splits if_splits)
  next
    case three
    with assms show ?thesis
      by (auto simp: u8_next.simps split: list.splits if_splits)
  next
    case four
    with assms show ?thesis
      by (auto simp: u8_next.simps split: list.splits if_splits)
  next
    case bad
    with assms show ?thesis by (simp add: u8_next.simps)
  qed
qed

lemma utf_loop_stops_at_failure:
  "u8_wellformed pre \<Longrightarrow> fst (u8_next rest) < 0 \<Longrightarrow>
   utf_loop lib is_url v (pre @ rest) = utf_loop lib is_url v pre"
proof (induction lib is_url v pre rule: utf_loop.induct)
  case (1 lib is_url v)
  then show ?case by (cases rest) (auto split: prod.splits)
next
  case (2 lib is_url v c s)
  obtain uc s' where n: "u8_next (c # s) = (uc, s')" by (cases "u8_next (c # s)")
  with "2.prems"(1) have ok: "0 \<le> uc" and wf: "u8_wellformed s'" by simp_all
  from u8_next_append [OF n ok] have a: "u8_next (c # s @ rest) = (uc, s' @ rest)" .
  from ok have nn: "\<not> uc < 0" by simp
  from "2.IH" [OF n [symmetric] nn wf "2.prems"(2)]
  have "utf_loop lib is_url (utf_step lib is_url uc v) (s' @ rest)
      = utf_loop lib is_url (utf_step lib is_url uc v) s'" .
  with n a ok show ?case by simp
qed

lemma u8_next_consumed:
  assumes "u8_next (c # s) = (uc, s')" and "0 \<le> uc"
  shows "s = take (length s - length s') s @ s' \<and>
     u8_next (c # take (length s - length s') s) = (uc, [])"
proof -
  consider (one) "c \<le> 0x7F"
    | (two) "\<not> c \<le> 0x7F" "0xC2 \<le> c \<and> c \<le> 0xDF"
    | (three) "\<not> c \<le> 0x7F" "\<not> (0xC2 \<le> c \<and> c \<le> 0xDF)" "0xE0 \<le> c \<and> c \<le> 0xEF"
    | (four) "\<not> c \<le> 0x7F" "\<not> (0xC2 \<le> c \<and> c \<le> 0xDF)" "\<not> (0xE0 \<le> c \<and> c \<le> 0xEF)"
        "0xF0 \<le> c \<and> c \<le> 0xF4"
    | (bad) "\<not> c \<le> 0x7F" "\<not> (0xC2 \<le> c \<and> c \<le> 0xDF)" "\<not> (0xE0 \<le> c \<and> c \<le> 0xEF)"
        "\<not> (0xF0 \<le> c \<and> c \<le> 0xF4)"
    by blast
  then show ?thesis
  proof cases
    case one
    with assms show ?thesis by (simp add: u8_next.simps)
  next
    case two
    with assms show ?thesis
      by (auto simp: u8_next.simps split: list.splits if_splits)
  next
    case three
    with assms show ?thesis
      by (auto simp: u8_next.simps split: list.splits if_splits)
  next
    case four
    with assms show ?thesis
      by (auto simp: u8_next.simps split: list.splits if_splits)
  next
    case bad
    with assms show ?thesis by (simp add: u8_next.simps)
  qed
qed

lemma ill_formed_split:
  "\<not> u8_wellformed w \<Longrightarrow>
   \<exists>pre rest. w = pre @ rest \<and> rest \<noteq> [] \<and> u8_wellformed pre \<and> fst (u8_next rest) < 0"
proof (induction w rule: length_induct)
  case (1 w)
  from "1.prems" obtain c s where w: "w = c # s" by (cases w) auto
  obtain uc s' where n: "u8_next (c # s) = (uc, s')" by (cases "u8_next (c # s)")
  show ?case
  proof (cases "uc < 0")
    case True
    with n w have "w = [] @ w \<and> w \<noteq> [] \<and> u8_wellformed [] \<and> fst (u8_next w) < 0" by simp
    then show ?thesis by blast
  next
    case False
    then have ok: "0 \<le> uc" by simp
    with "1.prems" n w have bad: "\<not> u8_wellformed s'" by simp
    from u8_next_shorter [OF n] w have "length s' < length w" by simp
    with "1.IH" bad obtain pre rest where
      s': "s' = pre @ rest" "rest \<noteq> []" "u8_wellformed pre" "fst (u8_next rest) < 0" by blast
    define k where "k = take (length s - length s') s"
    from u8_next_consumed [OF n ok] have k: "s = k @ s'" "u8_next (c # k) = (uc, [])"
      by (simp_all add: k_def)
    from u8_next_append [OF k(2) ok, of pre] have "u8_next (c # k @ pre) = (uc, pre)" by simp
    with ok s'(3) have "u8_wellformed (c # k @ pre)" by simp
    moreover from w k(1) s'(1) have "w = (c # k @ pre) @ rest" by simp
    ultimately show ?thesis using s'(2,4) by blast
  qed
qed

text \<open>
  C8.  When a word holds an invalid or incomplete code point, the Unicode scorer stops at
  it: for bytes \<open>pre\<close> that decode without a failure, followed by bytes \<open>rest\<close> whose first
  decoding fails, the scorer returns for \<open>pre @ rest\<close> what it returns for \<open>pre\<close> alone, the
  score of the characters before the failure after the usual zeroing for long words and the
  cap at \<open>4\<close>.  Every word that is not well-formed UTF-8 splits in this way.  The result is
  an ordinary score and counter; the scorer has no error value.
\<close>

theorem decoding_failure_keeps_partial_score:
  "(u8_wellformed pre \<and> fst (u8_next rest) < 0 \<longrightarrow>
      rspamd_chartable_process_word_utf lib ctx (pre @ rest) is_url nc
        = rspamd_chartable_process_word_utf lib ctx pre is_url nc) \<and>
   (\<not> u8_wellformed w \<longrightarrow>
      (\<exists>pre rest. w = pre @ rest \<and> rest \<noteq> [] \<and> u8_wellformed pre \<and> fst (u8_next rest) < 0 \<and>
         rspamd_chartable_process_word_utf lib ctx w is_url nc
           = rspamd_chartable_process_word_utf lib ctx pre is_url nc))"
proof (intro conjI impI)
  assume "u8_wellformed pre \<and> fst (u8_next rest) < 0"
  then show "rspamd_chartable_process_word_utf lib ctx (pre @ rest) is_url nc
      = rspamd_chartable_process_word_utf lib ctx pre is_url nc"
    by (simp add: rspamd_chartable_process_word_utf_def utf_loop_stops_at_failure)
next
  assume "\<not> u8_wellformed w"
  then obtain pre rest where
    s: "w = pre @ rest" "rest \<noteq> []" "u8_wellformed pre" "fst (u8_next rest) < 0"
    using ill_formed_split [of w] by blast
  then have "rspamd_chartable_process_word_utf lib ctx w is_url nc
      = rspamd_chartable_process_word_utf lib ctx pre is_url nc"
    by (simp add: rspamd_chartable_process_word_utf_def utf_loop_stops_at_failure)
  with s show "\<exists>pre rest. w = pre @ rest \<and> rest \<noteq> [] \<and> u8_wellformed pre \<and>
      fst (u8_next rest) < 0 \<and>
      rspamd_chartable_process_word_utf lib ctx w is_url nc
        = rspamd_chartable_process_word_utf lib ctx pre is_url nc"
    by blast
qed

text \<open>The letters \<open>p a U+0443\<close> score \<open>1\<close>; so do they before a lead byte \<open>0xD1\<close> that no
  trail byte follows.\<close>

theorem decoding_failure_keeps_partial_score_witness:
  "u8_wellformed [0x70, 0x61, 0xD1, 0x83] \<and> fst (u8_next [0xD1, 0x61, 0x61]) < 0 \<and>
   \<not> u8_wellformed ([0x70, 0x61, 0xD1, 0x83] @ [0xD1, 0x61, 0x61]) \<and>
   rspamd_chartable_process_word_utf ucd_fragment default_ctx
     ([0x70, 0x61, 0xD1, 0x83] @ [0xD1, 0x61, 0x61]) False (Some 0) = (1, Some 0) \<and>
   (\<exists>pre rest. [0x70, 0x61, 0xD1, 0x83] @ [0xD1, 0x61, 0x61] = pre @ rest \<and> rest \<noteq> [] \<and>
      u8_wellformed pre \<and> fst (u8_next rest) < 0 \<and>
      rspamd_chartable_process_word_utf ucd_fragment default_ctx
        ([0x70, 0x61, 0xD1, 0x83] @ [0xD1, 0x61, 0x61]) False (Some 0)
        = rspamd_chartable_process_word_utf ucd_fragment default_ctx pre False (Some 0))"
proof -
  have w: "u8_wellformed [0x70, 0x61, 0xD1, 0x83]"
    by (simp add: u8_next.simps u8_trail_def)
  have f: "fst (u8_next [0xD1, 0x61, 0x61]) < 0"
    by (simp add: u8_next.simps u8_trail_def)
  have n: "\<not> u8_wellformed ([0x70, 0x61, 0xD1, 0x83] @ [0xD1, 0x61, 0x61])"
    by (simp add: u8_next.simps u8_trail_def)
  have e: "rspamd_chartable_process_word_utf ucd_fragment default_ctx [0x70, 0x61, 0xD1, 0x83]
      False (Some 0) = (1, Some 0)"
    by (simp add: utf_defs block_defs ucd_fragment_def default_ctx_fields cyrillic_u_confusable
        dbl_defs)
  note t = decoding_failure_keeps_partial_score [of "[0x70, 0x61, 0xD1, 0x83]"
      "[0xD1, 0x61, 0x61]" ucd_fragment default_ctx False "Some 0"
      "[0x70, 0x61, 0xD1, 0x83] @ [0xD1, 0x61, 0x61]"]
  from t w f have a: "rspamd_chartable_process_word_utf ucd_fragment default_ctx
      ([0x70, 0x61, 0xD1, 0x83] @ [0xD1, 0x61, 0x61]) False (Some 0)
      = rspamd_chartable_process_word_utf ucd_fragment default_ctx [0x70, 0x61, 0xD1, 0x83]
          False (Some 0)"
    by blast
  have c: "rspamd_chartable_process_word_utf ucd_fragment default_ctx
      ([0x70, 0x61, 0xD1, 0x83] @ [0xD1, 0x61, 0x61]) False (Some 0) = (1, Some 0)"
    by (simp only: a e)
  from t n have b: "\<exists>pre rest. [0x70, 0x61, 0xD1, 0x83] @ [0xD1, 0x61, 0x61] = pre @ rest \<and>
      rest \<noteq> [] \<and> u8_wellformed pre \<and> fst (u8_next rest) < 0 \<and>
      rspamd_chartable_process_word_utf ucd_fragment default_ctx
        ([0x70, 0x61, 0xD1, 0x83] @ [0xD1, 0x61, 0x61]) False (Some 0)
        = rspamd_chartable_process_word_utf ucd_fragment default_ctx pre False (Some 0)"
    by blast
  from w f n c b show ?thesis by (intro conjI)
qed

section \<open>The hostname callback\<close>

lemma paypal_host_utf:
  "rspamd_chartable_process_word_utf ucd_fragment default_ctx paypal_host True None = (1, None)"
  by (simp add: utf_defs block_defs ucd_fragment_def paypal_host_def default_ctx_fields
      cyrillic_u_confusable dbl_defs)

lemma paypal_host_valid: "g_utf8_validate ucd_fragment paypal_host"
  by (simp add: ucd_fragment_def paypal_host_def u8_next.simps u8_trail_def)

lemma paypal_host_nonempty: "paypal_host \<noteq> []"
  by (simp add: paypal_host_def)

lemma default_registrations:
  "snd (chartable_module_config True no_opts chartable_module_init)
     = [(''R_MIXED_CHARSET'', Symbol_callback), (''R_MIXED_CHARSET_URL'', Url_symbol_callback)]"
  by (simp add: ctx_defs)

lemma url_callback_symbol_name:
  "chartable_url_symbol_callback lib ctx task = Some d \<Longrightarrow> fst d = symbol ctx"
  by (auto simp: chartable_url_symbol_callback_def Let_def split: if_splits)

lemma process_word_utf_le_4: "fst (rspamd_chartable_process_word_utf lib ctx w is_url nc) \<le> 4"
  by (simp add: process_word_utf_fst utf_finish_def)

lemma process_word_ascii_le_4: "rspamd_chartable_process_word_ascii ctx w is_url \<le> 4"
  by (simp add: rspamd_chartable_process_word_ascii_def Let_def)

lemma process_part_score_le_2:
  "fst (rspamd_chartable_process_part lib ctx p) = Some (name, score, label) \<Longrightarrow> score \<le> 2"
  by (cases p) (auto simp: Let_def split: option.splits if_splits prod.splits)

lemma subject_result_score_le_2:
  "subject_result lib ctx subj = Some (name, score, label) \<Longrightarrow> score \<le> 2"
  by (auto simp: subject_result_def Let_def split: option.splits if_splits)

text \<open>
  The additions of the hostname loop round.  Six hosts with the scores \<open>1\<close>, four times the
  double nearest to \<open>1 / 6\<close>, and the double nearest to \<open>1 / 3\<close> add up to the double
  \<open>2.0000000000000004\<close>, which is above \<open>2\<close>: at a seventh entry the test of line 669 holds,
  the sum is set to \<open>2\<close> and the entry is not scored.
\<close>

lemma url_loop_rounds:
  "url_loop ucd_fragment default_ctx 0
     [\<lparr>host = paypal_host\<rparr>,
      \<lparr>host = [0x70, 0x61, 0x61, 0x61, 0x61, 0x61, 0x61, 0xD1, 0x83]\<rparr>,
      \<lparr>host = [0x70, 0x61, 0x61, 0x61, 0x61, 0x61, 0x61, 0xD1, 0x83]\<rparr>,
      \<lparr>host = [0x70, 0x61, 0x61, 0x61, 0x61, 0x61, 0x61, 0xD1, 0x83]\<rparr>,
      \<lparr>host = [0x70, 0x61, 0x61, 0x61, 0x61, 0x61, 0x61, 0xD1, 0x83]\<rparr>,
      \<lparr>host = [0x70, 0x61, 0x61, 0x61, 0xD1, 0x83]\<rparr>]
     = 4503599627370497 / 2251799813685248 \<and>
   url_loop ucd_fragment default_ctx 0
     [\<lparr>host = paypal_host\<rparr>,
      \<lparr>host = [0x70, 0x61, 0x61, 0x61, 0x61, 0x61, 0x61, 0xD1, 0x83]\<rparr>,
      \<lparr>host = [0x70, 0x61, 0x61, 0x61, 0x61, 0x61, 0x61, 0xD1, 0x83]\<rparr>,
      \<lparr>host = [0x70, 0x61, 0x61, 0x61, 0x61, 0x61, 0x61, 0xD1, 0x83]\<rparr>,
      \<lparr>host = [0x70, 0x61, 0x61, 0x61, 0x61, 0x61, 0x61, 0xD1, 0x83]\<rparr>,
      \<lparr>host = [0x70, 0x61, 0x61, 0x61, 0xD1, 0x83]\<rparr>,
      \<lparr>host = paypal_host\<rparr>]
     = 2"
proof -
  have v: "g_utf8_validate ucd_fragment [0x70, 0x61, 0x61, 0x61, 0x61, 0x61, 0x61, 0xD1, 0x83]"
    "g_utf8_validate ucd_fragment [0x70, 0x61, 0x61, 0x61, 0xD1, 0x83]"
    by (simp_all add: ucd_fragment_def u8_next.simps u8_trail_def)
  have a6: "dbl_div 1 6 = 6004799503160661 / 36028797018963968"
    using b64_round_eval [of "1 / 6" "- 3"] by (simp add: dbl_div_def round_even_def)
  have a3: "dbl_div 1 3 = 6004799503160661 / 18014398509481984"
    using b64_round_eval [of "1 / 3" "- 2"] by (simp add: dbl_div_def round_even_def)
  have z6: "dbl_add 0 (6004799503160661 / 36028797018963968) = 6004799503160661 / 36028797018963968"
    using b64_round_eval [of "6004799503160661 / 36028797018963968" "- 3"] by (simp add: dbl_add_def round_even_def)
  have z3: "dbl_add 0 (6004799503160661 / 18014398509481984) = 6004799503160661 / 18014398509481984"
    using b64_round_eval [of "6004799503160661 / 18014398509481984" "- 2"] by (simp add: dbl_add_def round_even_def)
  have s1: "dbl_add (1) (6004799503160661 / 36028797018963968) = 5254199565265579 / 4503599627370496"
    using b64_round_eval [of "42033596522124629 / 36028797018963968" 0] by (simp add: dbl_add_def round_even_def)
  have s2: "dbl_add (5254199565265579 / 4503599627370496) (6004799503160661 / 36028797018963968) = 3002399751580331 / 2251799813685248"
    using b64_round_eval [of "48038396025285293 / 36028797018963968" 0] by (simp add: dbl_add_def round_even_def)
  have s3: "dbl_add (3002399751580331 / 2251799813685248) (6004799503160661 / 36028797018963968) = 6755399441055745 / 4503599627370496"
    using b64_round_eval [of "54043195528445957 / 36028797018963968" 0] by (simp add: dbl_add_def round_even_def)
  have s4: "dbl_add (6755399441055745 / 4503599627370496) (6004799503160661 / 36028797018963968) = 1876499844737707 / 1125899906842624"
    using b64_round_eval [of "60047995031606621 / 36028797018963968" 0] by (simp add: dbl_add_def round_even_def)
  have s5: "dbl_add (1876499844737707 / 1125899906842624) (6004799503160661 / 18014398509481984) = 4503599627370497 / 2251799813685248"
    using b64_round_eval [of "36028797018963973 / 18014398509481984" 1] by (simp add: dbl_add_def round_even_def)
  have h6: "rspamd_chartable_process_word_utf ucd_fragment default_ctx
      [0x70, 0x61, 0x61, 0x61, 0x61, 0x61, 0x61, 0xD1, 0x83] True None
      = (6004799503160661 / 36028797018963968, None)"
    by (simp add: utf_defs block_defs ucd_fragment_def default_ctx_fields cyrillic_u_confusable
        a6 z6)
  have h3: "rspamd_chartable_process_word_utf ucd_fragment default_ctx
      [0x70, 0x61, 0x61, 0x61, 0xD1, 0x83] True None
      = (6004799503160661 / 18014398509481984, None)"
    by (simp add: utf_defs block_defs ucd_fragment_def default_ctx_fields cyrillic_u_confusable
        a3 z3)
  have s0: "dbl_add 0 1 = 1" by (simp add: dbl_defs)
  show ?thesis
    by (simp add: paypal_host_utf paypal_host_valid paypal_host_nonempty v h6 h3
        s0 s1 s2 s3 s4 s5)
qed

text \<open>
  C1.  The claim is that the hostname callback emits its detection under the configured
  \<open>url_symbol\<close>.  The configuration registers the callback under \<open>url_symbol\<close>
  (\<open>R_MIXED_CHARSET_URL\<close> by default), but the callback inserts its result under \<open>symbol\<close>:
  for one URL with the host \<open>paypal_host\<close> the detection carries the name \<open>R_MIXED_CHARSET\<close>.
\<close>

theorem url_callback_emits_body_symbol:
  "snd (chartable_module_config True no_opts chartable_module_init)
     = [(''R_MIXED_CHARSET'', Symbol_callback), (''R_MIXED_CHARSET_URL'', Url_symbol_callback)] \<and>
   chartable_url_symbol_callback ucd_fragment default_ctx
     \<lparr>text_parts = [], subject = None, urls = [\<lparr>host = paypal_host\<rparr>], emails = []\<rparr>
     = Some (''R_MIXED_CHARSET'', 1, None)"
  by (simp add: default_registrations chartable_url_symbol_callback_def paypal_host_utf
      paypal_host_valid default_ctx_fields paypal_host_nonempty dbl_defs
      default_threshold_value)

text \<open>
  C3.  The claim is that no score exceeds \<open>4\<close> for a word and \<open>2\<close> for an entry point, the
  sum over the hostnames included.  The hostname callback tests the sum against \<open>2\<close> before
  it adds a host, never after the last one: three URLs with the host \<open>paypal_host\<close> and no
  email address give a detection with the score \<open>3\<close>.
\<close>

theorem url_callback_sum_above_cap:
  "chartable_url_symbol_callback ucd_fragment default_ctx
     \<lparr>text_parts = [], subject = None,
      urls = [\<lparr>host = paypal_host\<rparr>, \<lparr>host = paypal_host\<rparr>, \<lparr>host = paypal_host\<rparr>],
      emails = []\<rparr>
     = Some (''R_MIXED_CHARSET'', 3, None)"
  by (simp add: chartable_url_symbol_callback_def paypal_host_utf paypal_host_valid
      default_ctx_fields paypal_host_nonempty dbl_defs default_threshold_value)

section \<open>The word omega-indow in a body part\<close>

lemma omega_indow_decode: "u8_decode omega_indow = [0x3C9, 0x69, 0x6E, 0x64, 0x6F, 0x77]"
  by (simp add: omega_indow_def u8_next.simps u8_trail_def)

lemma utf_step_latin_badness:
  "u_isalpha lib uc \<longrightarrow> utf_block lib uc = UBLOCK_BASIC_LATIN \<Longrightarrow>
   badness (utf_step lib is_url uc v) = badness v"
  by (cases "u_isalpha lib uc") (simp_all add: utf_step_alpha_badness utf_step_other_fields)

lemma foldl_latin_badness:
  "\<forall>uc \<in> set cs. u_isalpha lib uc \<longrightarrow> utf_block lib uc = UBLOCK_BASIC_LATIN \<Longrightarrow>
   badness (foldl (\<lambda>v uc. utf_step lib is_url uc v) v cs) = badness v"
  by (induction cs arbitrary: v) (simp_all add: utf_step_latin_badness)

lemma latin_tail_scores_zero:
  assumes "u8_decode w = c # cs"
    and "\<forall>uc \<in> set cs. u_isalpha lib uc \<longrightarrow> utf_block lib uc = UBLOCK_BASIC_LATIN"
  shows "fst (rspamd_chartable_process_word_utf lib ctx w is_url nc) = 0"
proof -
  have "badness (utf_step lib is_url c (utf_init nc)) = 0"
    by (simp add: utf_step_def utf_init_def Let_def)
  with assms have "badness (utf_scan lib is_url nc (u8_decode w)) = 0"
    by (simp add: utf_scan_def foldl_latin_badness)
  then show ?thesis
    by (simp add: process_word_utf_fst utf_finish_def)
qed

lemma omega_indow_utf:
  assumes "\<forall>c \<in> {0x69, 0x6E, 0x64, 0x6F, 0x77}. ublock_getCode lib c = UBLOCK_BASIC_LATIN"
  shows "fst (rspamd_chartable_process_word_utf lib ctx omega_indow is_url nc) = 0"
  using assms by (intro latin_tail_scores_zero [OF omega_indow_decode]) (simp add: block_defs)

lemma omega_indow_ascii:
  "max_word_len ctx = 10 \<Longrightarrow> rspamd_chartable_process_word_ascii ctx omega_indow False = 1"
  by (simp add: ascii_defs omega_indow_def dbl_defs)

lemma omega_indow_nonempty: "omega_indow \<noteq> []"
  by (simp add: omega_indow_def)

lemma ucd_fragment_indow:
  "\<forall>c \<in> {0x69, 0x6E, 0x64, 0x6F, 0x77}. ublock_getCode ucd_fragment c = UBLOCK_BASIC_LATIN"
  by (simp add: ucd_fragment_def UBLOCK_BASIC_LATIN_def)

text \<open>
  C2.  The claim is that a body part whose only word is \<open>omega_indow\<close> gives, with the
  threshold \<open>0.1\<close> (the double \<open>b64_round (1 / 10)\<close>) and \<open>max_word_len = 10\<close>, exactly one
  detection with a score above \<open>0.1\<close>.  For a part flagged as UTF-8 the Unicode scorer gives the word the score \<open>0\<close>: its only
  foreign letter is the first one, which starts no tracked run, and the run of Latin letters
  after it is never left.  The callback inserts nothing.
\<close>

theorem omega_indow_utf_part_no_detection:
  "threshold default_ctx = b64_round (1 / 10) \<and> max_word_len default_ctx = 10 \<and>
   fst (chartable_symbol_callback ucd_fragment default_ctx (omega_indow_task True)) = []"
proof -
  have "rspamd_chartable_process_word_utf ucd_fragment default_ctx omega_indow False (Some 0)
      = (0, Some 0)"
    by (simp add: utf_defs block_defs ucd_fragment_def omega_indow_def default_ctx_fields)
  then show ?thesis
    by (simp add: chartable_symbol_callback_def subject_result_def default_ctx_fields
        omega_indow_nonempty omega_indow_task_def omega_indow_part_def dbl_defs
        default_threshold_value b64_round_tenth)
qed

text \<open>
  C2, as amended.  With the threshold \<open>0.1\<close> (as a double) and \<open>max_word_len = 10\<close>, for a part whose only
  word is the text word \<open>omega_indow\<close> and a message without a subject: when the part is
  flagged as UTF-8 the callback inserts no detection; when it is not, the byte scorer gives
  the word the score \<open>1\<close> and the callback inserts exactly one detection, under \<open>symbol\<close>, with
  the score \<open>1\<close> and no label.  The library is any one that puts \<open>i n d o w\<close> into the Basic
  Latin block.
\<close>

theorem omega_indow_detection_by_path:
  assumes "\<forall>c \<in> {0x69, 0x6E, 0x64, 0x6F, 0x77}. ublock_getCode lib c = UBLOCK_BASIC_LATIN"
    and "threshold ctx = b64_round (1 / 10)" and "max_word_len ctx = 10"
    and "text_parts task = [Some part]" and "subject task = None"
    and "normalized_words part = Some [\<lparr>tok_bytes = omega_indow, flag_text = True\<rparr>]"
  shows "fst (chartable_symbol_callback lib ctx task)
     = (if part_utf part then [] else [(symbol ctx, 1, None)])"
proof -
  obtain b n where r:
    "rspamd_chartable_process_word_utf lib ctx omega_indow False (Some 0) = (b, n)"
    by (cases "rspamd_chartable_process_word_utf lib ctx omega_indow False (Some 0)")
  with omega_indow_utf [OF assms(1), of ctx False "Some 0"] have b: "b = 0" by simp
  show ?thesis
    using assms(2-6) omega_indow_nonempty r b omega_indow_ascii [of ctx]
    by (simp add: chartable_symbol_callback_def subject_result_def dbl_defs b64_round_tenth)
qed

theorem omega_indow_detection_by_path_witness:
  "ublock_getCode ucd_fragment 0x69 = UBLOCK_BASIC_LATIN \<and>
   ublock_getCode ucd_fragment 0x6E = UBLOCK_BASIC_LATIN \<and>
   ublock_getCode ucd_fragment 0x64 = UBLOCK_BASIC_LATIN \<and>
   ublock_getCode ucd_fragment 0x6F = UBLOCK_BASIC_LATIN \<and>
   ublock_getCode ucd_fragment 0x77 = UBLOCK_BASIC_LATIN \<and>
   threshold default_ctx = b64_round (1 / 10) \<and> max_word_len default_ctx = 10 \<and>
   fst (chartable_symbol_callback ucd_fragment default_ctx (omega_indow_task False))
     = [(''R_MIXED_CHARSET'', 1, None)] \<and>
   fst (chartable_symbol_callback ucd_fragment default_ctx (omega_indow_task True)) = []"
  using omega_indow_detection_by_path [OF ucd_fragment_indow default_threshold_double
      default_ctx_fields(4), of "omega_indow_task False" "omega_indow_part False"]
    omega_indow_detection_by_path [OF ucd_fragment_indow default_threshold_double
      default_ctx_fields(4), of "omega_indow_task True" "omega_indow_part True"]
    ucd_fragment_indow
  by (simp add: default_ctx_fields(1,2,4) omega_indow_task_def omega_indow_part_def
      default_threshold_double)

section \<open>Digits before a letter\<close>

text \<open>
  C6.  In the Unicode scorer a run of digits \<open>ds\<close> followed by a letter \<open>uc\<close> adds exactly
  \<open>0.25\<close> to the badness of the word (by one addition of doubles, \<open>dbl_add\<close>) when the scorer is not in hostname context, the letter
  is not in the Latin bucket and the run does not start the word (\<open>pre\<close>, the characters
  before the run, is not empty), and adds nothing otherwise.  In the byte scorer a run of
  digit bytes followed by an alphabetic byte \<open>c\<close> adds exactly \<open>0.25\<close> when an alphabetic
  byte stands before the run, the scorer is not in hostname context and \<open>c\<close> is no ASCII
  hexadecimal digit, and adds nothing otherwise.
\<close>

theorem digit_to_alpha_penalty:
  "(u8_decode w = pre @ ds @ [uc] \<and> ds \<noteq> [] \<and> (\<forall>d \<in> set ds. is_digit_cp lib d) \<and>
    (pre = [] \<or> \<not> is_digit_cp lib (last pre)) \<and> u_isalpha lib uc \<longrightarrow>
      badness (utf_loop lib is_url (utf_init nc) w)
        = (if \<not> is_url \<and> utf_block lib uc \<noteq> UBLOCK_BASIC_LATIN \<and> pre \<noteq> []
           then dbl_add (badness (utf_scan lib is_url nc pre)) (1 / 4)
           else badness (utf_scan lib is_url nc pre))) \<and>
   (bs \<noteq> [] \<and> (\<forall>d \<in> set bs. is_digit_byte d) \<and> is_alpha_byte c \<longrightarrow>
      badness (ascii_loop is_url ascii_init (bpre @ bs @ [c]))
        = (if (\<exists>b \<in> set bpre. is_alpha_byte b) \<and> \<not> is_url \<and> \<not> g_ascii_isxdigit c
           then dbl_add (badness (ascii_loop is_url ascii_init bpre)) (1 / 4)
           else badness (ascii_loop is_url ascii_init bpre)))"
proof (intro conjI impI)
  assume "u8_decode w = pre @ ds @ [uc] \<and> ds \<noteq> [] \<and> (\<forall>d \<in> set ds. is_digit_cp lib d) \<and>
    (pre = [] \<or> \<not> is_digit_cp lib (last pre)) \<and> u_isalpha lib uc"
  then show "badness (utf_loop lib is_url (utf_init nc) w)
        = (if \<not> is_url \<and> utf_block lib uc \<noteq> UBLOCK_BASIC_LATIN \<and> pre \<noteq> []
           then dbl_add (badness (utf_scan lib is_url nc pre)) (1 / 4)
           else badness (utf_scan lib is_url nc pre))"
    using utf_digit_run_then_alpha [of ds lib uc pre is_url nc]
    by (simp add: utf_loop_scan)
next
  assume "bs \<noteq> [] \<and> (\<forall>d \<in> set bs. is_digit_byte d) \<and> is_alpha_byte c"
  then show "badness (ascii_loop is_url ascii_init (bpre @ bs @ [c]))
        = (if (\<exists>b \<in> set bpre. is_alpha_byte b) \<and> \<not> is_url \<and> \<not> g_ascii_isxdigit c
           then dbl_add (badness (ascii_loop is_url ascii_init bpre)) (1 / 4)
           else badness (ascii_loop is_url ascii_init bpre))"
    using ascii_digit_run_then_alpha [of bs c is_url bpre]
    by (simp add: ascii_scan_def)
qed

text \<open>The words \<open>a 1 2 U+0443\<close> for the Unicode scorer and \<open>a 1 2 z\<close> for the byte scorer:
  each has the badness \<open>0.25\<close>.\<close>

theorem digit_to_alpha_penalty_witness:
  "u8_decode [0x61, 0x31, 0x32, 0xD1, 0x83] = [0x61] @ [0x31, 0x32] @ [0x443] \<and>
   is_digit_cp ucd_fragment 0x31 \<and> is_digit_cp ucd_fragment 0x32 \<and>
   \<not> is_digit_cp ucd_fragment (last [0x61]) \<and> u_isalpha ucd_fragment 0x443 \<and>
   utf_block ucd_fragment 0x443 \<noteq> UBLOCK_BASIC_LATIN \<and>
   badness (utf_loop ucd_fragment False (utf_init None) [0x61, 0x31, 0x32, 0xD1, 0x83]) = 1 / 4 \<and>
   is_digit_byte 0x31 \<and> is_digit_byte 0x32 \<and> is_alpha_byte 0x7A \<and>
   is_alpha_byte 0x61 \<and> \<not> g_ascii_isxdigit 0x7A \<and>
   badness (ascii_loop False ascii_init ([0x61] @ [0x31, 0x32] @ [0x7A])) = 1 / 4"
proof -
  have d: "u8_decode [0x61, 0x31, 0x32, 0xD1, 0x83] = [0x61] @ [0x31, 0x32] @ [0x443]"
    by (simp add: u8_next.simps u8_trail_def)
  have h: "(\<forall>d \<in> set [0x31, 0x32]. is_digit_cp ucd_fragment d) \<and>
      \<not> is_digit_cp ucd_fragment (last [0x61]) \<and> u_isalpha ucd_fragment 0x443 \<and>
      utf_block ucd_fragment 0x443 \<noteq> UBLOCK_BASIC_LATIN"
    by (simp add: ucd_defs)
  have p: "badness (utf_scan ucd_fragment False None [0x61]) = 0"
    by (simp add: utf_scan_def utf_init_def utf_step_def ucd_defs)
  have hb: "(\<forall>d \<in> set [0x31, 0x32]. is_digit_byte d) \<and> is_alpha_byte 0x7A \<and>
      (\<exists>b \<in> set [0x61]. is_alpha_byte b) \<and> \<not> g_ascii_isxdigit 0x7A"
    by (simp add: byte_defs)
  have pb: "badness (ascii_loop False ascii_init [0x61]) = 0"
    by (simp add: ascii_init_def ascii_step_def byte_defs)
  from digit_to_alpha_penalty [of "[0x61, 0x31, 0x32, 0xD1, 0x83]" "[0x61]" "[0x31, 0x32]" "0x443"
      ucd_fragment False None "[0x31, 0x32]" "0x7A" "[0x61]"] d h p hb pb
  show ?thesis by (simp add: dbl_defs)
qed

section \<open>The average of a body part\<close>

text \<open>
  C7.  For a part with words, the body aggregator adds up, in the order of the words and by
  additions of doubles, the scores of the words that have a positive length and the text
  flag (\<open>part_sum\<close>: a word of length zero or without the text flag adds nothing), divides
  this sum, as a double, by the number of all words of the part (\<open>part_average\<close>), caps the
  quotient at \<open>2\<close>, and inserts a detection exactly when the capped value is strictly above
  the threshold.
\<close>

theorem part_average_over_all_words:
  assumes "normalized_words part = Some ws" and "ws \<noteq> []"
  shows "fst (rspamd_chartable_process_part lib ctx (Some part))
     = (let avg = part_average lib ctx (part_utf part) ws;
            cur_score = (if avg > 2 then 2 else avg)
        in if cur_score > threshold ctx then Some (symbol ctx, cur_score, None) else None)"
proof -
  obtain s nc where r: "part_loop lib ctx (part_utf part) (0, Some 0) ws = (s, nc)"
    by (cases "part_loop lib ctx (part_utf part) (0, Some 0) ws")
  with part_loop_sum [of lib ctx "part_utf part" 0 "Some 0" ws]
  have s: "s = part_sum lib ctx (part_utf part) ws" by (simp add: part_sum_def)
  show ?thesis
    using assms r by (simp add: s part_average_def Let_def)
qed

text \<open>
  A part outside UTF-8 with four words: \<open>omega_indow\<close> as text (score \<open>1\<close>), the same bytes
  without the text flag, an empty text word, and the text word \<open>a\<close> (score \<open>0\<close>).  The
  average is \<open>1 / 4\<close>: it is reported under the threshold \<open>0.1\<close>, and not reported when the
  threshold is \<open>1 / 4\<close> itself.

  A part outside UTF-8 with six text words: three times the bytes \<open>x a a a a a 0xFF\<close>, each
  with the score \<open>0.2\<close> (the double nearest to \<open>1 / 5\<close>), and three times the word \<open>a\<close> with
  the score \<open>0\<close>.  The third addition rounds the sum up, and the quotient by \<open>6\<close> is the double
  \<open>0.10000000000000002\<close>, which is strictly above the default threshold, the double \<open>0.1\<close>: a
  detection is inserted, where the average of the exact fifths would be \<open>1 / 10\<close>.
\<close>

theorem part_average_over_all_words_witness:
  "part_average ucd_fragment default_ctx False
     [\<lparr>tok_bytes = omega_indow, flag_text = True\<rparr>, \<lparr>tok_bytes = omega_indow, flag_text = False\<rparr>,
      \<lparr>tok_bytes = [], flag_text = True\<rparr>, \<lparr>tok_bytes = [0x61], flag_text = True\<rparr>] = 1 / 4 \<and>
   fst (rspamd_chartable_process_part ucd_fragment default_ctx
     (Some \<lparr>part_utf = False, normalized_words = Some
       [\<lparr>tok_bytes = omega_indow, flag_text = True\<rparr>, \<lparr>tok_bytes = omega_indow, flag_text = False\<rparr>,
        \<lparr>tok_bytes = [], flag_text = True\<rparr>, \<lparr>tok_bytes = [0x61], flag_text = True\<rparr>],
       capital_letters = 0\<rparr>)) = Some (''R_MIXED_CHARSET'', 1 / 4, None) \<and>
   fst (rspamd_chartable_process_part ucd_fragment (default_ctx\<lparr>threshold := 1 / 4\<rparr>)
     (Some \<lparr>part_utf = False, normalized_words = Some
       [\<lparr>tok_bytes = omega_indow, flag_text = True\<rparr>, \<lparr>tok_bytes = omega_indow, flag_text = False\<rparr>,
        \<lparr>tok_bytes = [], flag_text = True\<rparr>, \<lparr>tok_bytes = [0x61], flag_text = True\<rparr>],
       capital_letters = 0\<rparr>)) = None \<and>
   rspamd_chartable_process_word_ascii default_ctx [0x78, 0x61, 0x61, 0x61, 0x61, 0x61, 0xFF] False
     = 3602879701896397 / 18014398509481984 \<and>
   part_average ucd_fragment default_ctx False
     [\<lparr>tok_bytes = [0x78, 0x61, 0x61, 0x61, 0x61, 0x61, 0xFF], flag_text = True\<rparr>,
      \<lparr>tok_bytes = [0x78, 0x61, 0x61, 0x61, 0x61, 0x61, 0xFF], flag_text = True\<rparr>,
      \<lparr>tok_bytes = [0x78, 0x61, 0x61, 0x61, 0x61, 0x61, 0xFF], flag_text = True\<rparr>,
      \<lparr>tok_bytes = [0x61], flag_text = True\<rparr>, \<lparr>tok_bytes = [0x61], flag_text = True\<rparr>,
      \<lparr>tok_bytes = [0x61], flag_text = True\<rparr>] = 7205759403792795 / 72057594037927936 \<and>
   threshold default_ctx = 3602879701896397 / 36028797018963968 \<and>
   fst (rspamd_chartable_process_part ucd_fragment default_ctx
     (Some \<lparr>part_utf = False, normalized_words = Some
       [\<lparr>tok_bytes = [0x78, 0x61, 0x61, 0x61, 0x61, 0x61, 0xFF], flag_text = True\<rparr>,
        \<lparr>tok_bytes = [0x78, 0x61, 0x61, 0x61, 0x61, 0x61, 0xFF], flag_text = True\<rparr>,
        \<lparr>tok_bytes = [0x78, 0x61, 0x61, 0x61, 0x61, 0x61, 0xFF], flag_text = True\<rparr>,
        \<lparr>tok_bytes = [0x61], flag_text = True\<rparr>, \<lparr>tok_bytes = [0x61], flag_text = True\<rparr>,
        \<lparr>tok_bytes = [0x61], flag_text = True\<rparr>],
       capital_letters = 0\<rparr>))
     = Some (''R_MIXED_CHARSET'', 7205759403792795 / 72057594037927936, None)"
proof -
  let ?ws = "[\<lparr>tok_bytes = omega_indow, flag_text = True\<rparr>,
      \<lparr>tok_bytes = omega_indow, flag_text = False\<rparr>,
      \<lparr>tok_bytes = [], flag_text = True\<rparr>, \<lparr>tok_bytes = [0x61], flag_text = True\<rparr>]"
  let ?p = "\<lparr>part_utf = False, normalized_words = Some ?ws, capital_letters = 0\<rparr>"
  let ?x = "[0x78, 0x61, 0x61, 0x61, 0x61, 0x61, 0xFF] :: u8 list"
  let ?vs = "[\<lparr>tok_bytes = ?x, flag_text = True\<rparr>, \<lparr>tok_bytes = ?x, flag_text = True\<rparr>,
      \<lparr>tok_bytes = ?x, flag_text = True\<rparr>,
      \<lparr>tok_bytes = [0x61], flag_text = True\<rparr>, \<lparr>tok_bytes = [0x61], flag_text = True\<rparr>,
      \<lparr>tok_bytes = [0x61], flag_text = True\<rparr>]"
  let ?q = "\<lparr>part_utf = False, normalized_words = Some ?vs, capital_letters = 0\<rparr>"
  have a: "rspamd_chartable_process_word_ascii ctx [0x61] False = 0" for ctx
    by (simp add: ascii_defs)
  have o: "rspamd_chartable_process_word_ascii default_ctx omega_indow False = 1"
    "rspamd_chartable_process_word_ascii (default_ctx\<lparr>threshold := 1 / 4\<rparr>) omega_indow False = 1"
    by (simp_all add: ascii_defs omega_indow_def default_ctx_fields dbl_defs)
  have ne: "omega_indow \<noteq> []" by (simp add: omega_indow_def)
  have avg: "part_average ucd_fragment default_ctx False ?ws = 1 / 4"
    "part_average ucd_fragment (default_ctx\<lparr>threshold := 1 / 4\<rparr>) False ?ws = 1 / 4"
    using b64_round_eval [of "1 / 4" "- 2"]
    by (simp_all add: part_average_def part_sum_def word_score_def scored_word_def a o ne
        dbl_defs round_even_def)
  have d5: "dbl_div 1 5 = 3602879701896397 / 18014398509481984"
    using b64_round_eval [of "1 / 5" "- 3"] by (simp add: dbl_div_def round_even_def)
  have s1: "dbl_add 0 (3602879701896397 / 18014398509481984)
      = 3602879701896397 / 18014398509481984"
    using b64_round_eval [of "3602879701896397 / 18014398509481984" "- 3"]
    by (simp add: dbl_add_def round_even_def)
  have s2: "dbl_add (3602879701896397 / 18014398509481984)
      (3602879701896397 / 18014398509481984) = 3602879701896397 / 9007199254740992"
    using b64_round_eval [of "3602879701896397 / 9007199254740992" "- 2"]
    by (simp add: dbl_add_def round_even_def)
  have s3: "dbl_add (3602879701896397 / 9007199254740992)
      (3602879701896397 / 18014398509481984) = 1351079888211149 / 2251799813685248"
    using b64_round_eval [of "10808639105689191 / 18014398509481984" "- 1"]
    by (simp add: dbl_add_def round_even_def)
  have s4: "dbl_add (1351079888211149 / 2251799813685248) 0
      = 1351079888211149 / 2251799813685248"
    using b64_round_eval [of "1351079888211149 / 2251799813685248" "- 1"]
    by (simp add: dbl_add_def round_even_def)
  have d6: "dbl_div (1351079888211149 / 2251799813685248) 6
      = 7205759403792795 / 72057594037927936"
    using b64_round_eval [of "1351079888211149 / 13510798882111488" "- 4"]
    by (simp add: dbl_div_def round_even_def)
  have x: "rspamd_chartable_process_word_ascii default_ctx ?x False
      = 3602879701896397 / 18014398509481984"
    by (simp add: ascii_defs default_ctx_fields d5 s1)
  have avg': "part_average ucd_fragment default_ctx False ?vs
      = 7205759403792795 / 72057594037927936"
    by (simp add: part_average_def part_sum_def word_score_def scored_word_def a x
        s1 s2 s3 s4 d6)
  from part_average_over_all_words [of ?p ?ws ucd_fragment default_ctx]
    part_average_over_all_words [of ?p ?ws ucd_fragment "default_ctx\<lparr>threshold := 1 / 4\<rparr>"]
    part_average_over_all_words [of ?q ?vs ucd_fragment default_ctx]
    avg avg' x
  show ?thesis
    by (simp add: default_ctx_fields default_threshold_value
        del: rspamd_chartable_process_part.simps)
qed

section \<open>The first letter of a run\<close>

text \<open>
  C9.  In the Unicode scorer, after the first letter \<open>c1\<close> of a word (the characters \<open>pre\<close>
  before it are no letters) the run counter is still \<open>0\<close> and no bucket is recorded; the
  second consecutive letter \<open>c2\<close> sets the counter to \<open>1\<close> and records its own bucket, and adds
  nothing to the badness.  So a confusable letter right after a single leading Latin letter
  adds nothing, and a word of two letters scores \<open>0\<close>.
\<close>

theorem first_alpha_not_tracked:
  "((\<forall>p \<in> set pre. \<not> u_isalpha lib p) \<and> u_isalpha lib c1 \<longrightarrow>
      same_script_count (utf_scan lib is_url nc (pre @ [c1])) = 0 \<and>
      last_is_latin (utf_scan lib is_url nc (pre @ [c1])) = - 1) \<and>
   ((\<forall>p \<in> set pre. \<not> u_isalpha lib p) \<and> u_isalpha lib c1 \<and> u_isalpha lib c2 \<longrightarrow>
      same_script_count (utf_scan lib is_url nc (pre @ [c1, c2])) = 1 \<and>
      last_is_latin (utf_scan lib is_url nc (pre @ [c1, c2]))
        = (if utf_block lib c2 = UBLOCK_BASIC_LATIN then 1 else 0) \<and>
      badness (utf_scan lib is_url nc (pre @ [c1, c2]))
        = badness (utf_scan lib is_url nc (pre @ [c1]))) \<and>
   (is_latin_letter lib c1 \<and> is_confusable_letter lib c2 \<longrightarrow>
      badness (utf_scan lib is_url nc [c1, c2]) = 0) \<and>
   (u8_decode w = [c1, c2] \<and> u_isalpha lib c1 \<and> u_isalpha lib c2 \<longrightarrow>
      fst (rspamd_chartable_process_word_utf lib ctx w is_url nc) = 0)"
proof (intro conjI impI)
  assume a: "(\<forall>p \<in> set pre. \<not> u_isalpha lib p) \<and> u_isalpha lib c1"
  with utf_first_alpha [of pre lib c1 is_url nc]
  show "same_script_count (utf_scan lib is_url nc (pre @ [c1])) = 0"
    and "last_is_latin (utf_scan lib is_url nc (pre @ [c1])) = - 1" by simp_all
next
  assume a: "(\<forall>p \<in> set pre. \<not> u_isalpha lib p) \<and> u_isalpha lib c1 \<and> u_isalpha lib c2"
  with utf_second_alpha [of pre lib c1 c2 is_url nc]
  show "same_script_count (utf_scan lib is_url nc (pre @ [c1, c2])) = 1"
    and "last_is_latin (utf_scan lib is_url nc (pre @ [c1, c2]))
        = (if utf_block lib c2 = UBLOCK_BASIC_LATIN then 1 else 0)"
    and "badness (utf_scan lib is_url nc (pre @ [c1, c2]))
        = badness (utf_scan lib is_url nc (pre @ [c1]))" by simp_all
next
  assume "is_latin_letter lib c1 \<and> is_confusable_letter lib c2"
  then have "u_isalpha lib c1" "u_isalpha lib c2"
    by (simp_all add: is_latin_letter_def is_confusable_letter_def)
  with utf_second_alpha [of "[]" lib c1 c2 is_url nc] utf_first_alpha_badness [of lib c1 is_url nc]
  show "badness (utf_scan lib is_url nc [c1, c2]) = 0" by simp
next
  assume "u8_decode w = [c1, c2] \<and> u_isalpha lib c1 \<and> u_isalpha lib c2"
  then show "fst (rspamd_chartable_process_word_utf lib ctx w is_url nc) = 0"
    using two_char_word [of w c1 c2 lib ctx is_url nc] by simp
qed

text \<open>The word \<open>a U+0443\<close>, alone and after the characters \<open>1 -\<close>.\<close>

theorem first_alpha_not_tracked_witness:
  "\<not> u_isalpha ucd_fragment 0x31 \<and> \<not> u_isalpha ucd_fragment 0x2D \<and>
   is_latin_letter ucd_fragment 0x61 \<and> is_confusable_letter ucd_fragment 0x443 \<and>
   u8_decode [0x61, 0xD1, 0x83] = [0x61, 0x443] \<and>
   same_script_count (utf_scan ucd_fragment False None ([0x31, 0x2D] @ [0x61])) = 0 \<and>
   last_is_latin (utf_scan ucd_fragment False None ([0x31, 0x2D] @ [0x61])) = - 1 \<and>
   same_script_count (utf_scan ucd_fragment False None ([0x31, 0x2D] @ [0x61, 0x443])) = 1 \<and>
   last_is_latin (utf_scan ucd_fragment False None ([0x31, 0x2D] @ [0x61, 0x443])) = 0 \<and>
   badness (utf_scan ucd_fragment False None [0x61, 0x443]) = 0 \<and>
   fst (rspamd_chartable_process_word_utf ucd_fragment default_ctx [0x61, 0xD1, 0x83] False None) = 0"
proof -
  have h: "(\<forall>p \<in> set [0x31, 0x2D]. \<not> u_isalpha ucd_fragment p) \<and>
      is_latin_letter ucd_fragment 0x61 \<and> is_confusable_letter ucd_fragment 0x443 \<and>
      u_isalpha ucd_fragment 0x61 \<and> u_isalpha ucd_fragment 0x443 \<and>
      utf_block ucd_fragment 0x443 \<noteq> UBLOCK_BASIC_LATIN"
    by (simp add: ucd_defs cyrillic_u_confusable)
  have d: "u8_decode [0x61, 0xD1, 0x83] = [0x61, 0x443]"
    by (simp add: u8_next.simps u8_trail_def)
  from first_alpha_not_tracked [of "[0x31, 0x2D]" ucd_fragment "0x61" False None "0x443"
      "[0x61, 0xD1, 0x83]" default_ctx] h d
  show ?thesis by simp
qed

section \<open>Switches of the bucket in the byte scorer\<close>

text \<open>
  C10.  The claim is that the byte scorer adds \<open>1 / run_length\<close> on every switch of
  consecutive alphabetic bytes between the two buckets.  The letter \<open>a\<close> followed by the byte
  \<open>0xFF\<close> is such a switch, and the word scores \<open>0\<close>: the first alphabetic byte of a run
  records no bucket, so the second has nothing to differ from.
\<close>

theorem ascii_first_switch_unpenalised:
  "is_alpha_byte 0x61 \<and> is_alpha_byte 0xFF \<and> byte_bucket 0x61 \<noteq> byte_bucket 0xFF \<and>
   badness (ascii_scan False [0x61, 0xFF]) = 0 \<and>
   rspamd_chartable_process_word_ascii default_ctx [0x61, 0xFF] False = 0"
  by (simp add: byte_defs ascii_scan_def ascii_defs default_ctx_fields)

text \<open>
  C10, as amended.  In the byte scorer, once a run has a recorded bucket (the scorer is in
  the state \<open>got_alpha\<close> with a positive run counter, which is so from the second consecutive
  alphabetic byte on), an alphabetic byte adds \<open>1.0 / run_length\<close> (the quotient and the sum
  are those of doubles, \<open>dbl_div\<close> and \<open>dbl_add\<close>) exactly when its bucket
  differs from the recorded one, in either direction and with no test of the confusable
  set: after an alphabetic byte \<open>x\<close> and a run of \<open>n \<ge> 1\<close> alphabetic bytes of one bucket,
  an alphabetic byte of the other bucket makes the badness \<open>1.0 / n\<close>.  The switch from the
  first alphabetic byte to the second adds nothing.  The Unicode scorer in the same
  situation adds \<open>1.0 / run_length\<close> only for a letter outside the Latin bucket that is in the
  confusable set, after a run whose flag \<open>last_is_latin\<close> is not \<open>0\<close>.
\<close>

theorem ascii_switch_penalty:
  "(state v = got_alpha \<and> 0 < same_script_count v \<and> is_alpha_byte c \<longrightarrow>
      badness (ascii_step is_url c v)
        = (if byte_bucket c \<noteq> last_sc v
           then dbl_add (badness v) (dbl_div 1 (real (same_script_count v))) else badness v)) \<and>
   (is_alpha_byte x \<and> run \<noteq> [] \<and> (\<forall>b \<in> set run. is_alpha_byte b \<and> byte_bucket b = B) \<and>
    is_alpha_byte c \<longrightarrow>
      badness (ascii_scan is_url (x # run @ [c]))
        = (if byte_bucket c \<noteq> B then dbl_div 1 (real (length run)) else 0)) \<and>
   (is_alpha_byte x \<and> is_alpha_byte c \<longrightarrow> badness (ascii_scan is_url [x, c]) = 0) \<and>
   (state u = got_alpha \<and> 0 < same_script_count u \<and> u_isalpha lib uc \<longrightarrow>
      badness (utf_step lib is_url uc u)
        = (if utf_block lib uc \<noteq> UBLOCK_BASIC_LATIN \<and> last_is_latin u \<noteq> 0
              \<and> rspamd_can_alias_latin uc
           then dbl_add (badness u) (dbl_div 1 (real (same_script_count u))) else badness u))"
proof (intro conjI impI)
  assume "state v = got_alpha \<and> 0 < same_script_count v \<and> is_alpha_byte c"
  then show "badness (ascii_step is_url c v)
        = (if byte_bucket c \<noteq> last_sc v
           then dbl_add (badness v) (dbl_div 1 (real (same_script_count v))) else badness v)"
    by (simp add: ascii_step_alpha_badness)
next
  assume "is_alpha_byte x \<and> run \<noteq> [] \<and> (\<forall>b \<in> set run. is_alpha_byte b \<and> byte_bucket b = B) \<and>
    is_alpha_byte c"
  then show "badness (ascii_scan is_url (x # run @ [c]))
        = (if byte_bucket c \<noteq> B then dbl_div 1 (real (length run)) else 0)"
    using ascii_run_then_switch [of x run B c is_url] by simp
next
  assume "is_alpha_byte x \<and> is_alpha_byte c"
  then show "badness (ascii_scan is_url [x, c]) = 0"
    using ascii_first_two [of x c is_url] by simp
next
  assume "state u = got_alpha \<and> 0 < same_script_count u \<and> u_isalpha lib uc"
  then show "badness (utf_step lib is_url uc u)
        = (if utf_block lib uc \<noteq> UBLOCK_BASIC_LATIN \<and> last_is_latin u \<noteq> 0
              \<and> rspamd_can_alias_latin uc
           then dbl_add (badness u) (dbl_div 1 (real (same_script_count u))) else badness u)"
    by (simp add: utf_step_alpha_badness)
qed

text \<open>
  The bytes \<open>x a b 0xFF\<close> (two letters, then a high byte) and \<open>x 0xFE 0xFF 0xFD a\<close> (three
  high bytes, then a letter) score \<open>1 / 2\<close> and the double \<open>1.0 / 3\<close>.  In the Unicode scorer a tracked
  Latin run of length \<open>2\<close> followed by the Cyrillic letter \<open>U+0436\<close>, which is not in the
  confusable set, adds nothing.
\<close>

theorem ascii_switch_penalty_witness:
  "is_alpha_byte 0x78 \<and> is_alpha_byte 0x61 \<and> byte_bucket 0x61 = non_ascii \<and>
   is_alpha_byte 0x62 \<and> byte_bucket 0x62 = non_ascii \<and>
   is_alpha_byte 0xFF \<and> byte_bucket 0xFF = ascii \<and>
   badness (ascii_scan False (0x78 # [0x61, 0x62] @ [0xFF])) = 1 / 2 \<and>
   is_alpha_byte 0xFE \<and> byte_bucket 0xFE = ascii \<and>
   is_alpha_byte 0xFD \<and> byte_bucket 0xFD = ascii \<and>
   badness (ascii_scan False (0x78 # [0xFE, 0xFF, 0xFD] @ [0x61])) = dbl_div 1 3 \<and>
   badness (ascii_scan False [0x78, 0xFF]) = 0 \<and>
   badness (ascii_step False 0xFF
     \<lparr>badness = 1, same_script_count = 2, state = got_alpha, last_sc = non_ascii,
      seen_alpha = True\<rparr>) = 3 / 2 \<and>
   u_isalpha ucd_fragment 0x436 \<and> utf_block ucd_fragment 0x436 \<noteq> UBLOCK_BASIC_LATIN \<and>
   \<not> rspamd_can_alias_latin 0x436 \<and>
   badness (utf_step ucd_fragment False 0x436
     \<lparr>badness = 0, same_script_count = 2, state = got_alpha, last_is_latin = 1, nsym = 3,
      prev_state = got_alpha, ncap = None\<rparr>) = 0"
proof -
  have h1: "is_alpha_byte 0x78 \<and>
      (\<forall>b \<in> set [0x61, 0x62]. is_alpha_byte b \<and> byte_bucket b = non_ascii) \<and>
      is_alpha_byte 0xFF \<and> byte_bucket 0xFF \<noteq> non_ascii"
    by (simp add: byte_defs)
  have h2: "(\<forall>b \<in> set [0xFE, 0xFF, 0xFD]. is_alpha_byte b \<and> byte_bucket b = ascii) \<and>
      is_alpha_byte 0x61 \<and> byte_bucket 0x61 \<noteq> ascii"
    by (simp add: byte_defs)
  have h3: "u_isalpha ucd_fragment 0x436 \<and> utf_block ucd_fragment 0x436 \<noteq> UBLOCK_BASIC_LATIN"
    by (simp add: ucd_defs)
  have h4: "\<not> rspamd_can_alias_latin 0x436"
    by (simp add: rspamd_can_alias_latin_def latin_confusable_def)
  let ?v = "\<lparr>badness = 1, same_script_count = 2, state = got_alpha, last_sc = non_ascii,
      seen_alpha = True\<rparr>"
  let ?u = "\<lparr>badness = 0, same_script_count = 2, state = got_alpha, last_is_latin = 1, nsym = 3,
      prev_state = got_alpha, ncap = None\<rparr>"
  from ascii_switch_penalty [of ?v "0xFF" False "0x78" "[0x61, 0x62]" non_ascii ?u ucd_fragment "0x436"]
    ascii_switch_penalty [of ?v "0x61" False "0x78" "[0xFE, 0xFF, 0xFD]" ascii ?u ucd_fragment "0x436"]
    h1 h2 h3 h4
  show ?thesis by (simp add: dbl_add_def b64_exact dbl_div_def [of 1 2])
qed

section \<open>Switches of the script in the Unicode scorer\<close>

lemma utf_finish_short:
  "length cs \<le> unat (max_word_len ctx) \<Longrightarrow> badness (utf_scan lib is_url nc cs) \<le> 4 \<Longrightarrow>
   utf_finish ctx (utf_scan lib is_url nc cs) = badness (utf_scan lib is_url nc cs)"
  by (simp add: utf_finish_def nsym_utf_scan)

lemma utf_step_confusable:
  assumes "state v = got_alpha" and "0 < same_script_count v" and "last_is_latin v \<noteq> 0"
    and "is_confusable_letter lib uc"
  shows "badness (utf_step lib is_url uc v)
       = dbl_add (badness v) (dbl_div 1 (real (same_script_count v))) \<and>
     same_script_count (utf_step lib is_url uc v) = 1 \<and>
     last_is_latin (utf_step lib is_url uc v) = 0"
proof -
  from assms(4) have c: "u_isalpha lib uc" "utf_block lib uc \<noteq> UBLOCK_BASIC_LATIN"
    "rspamd_can_alias_latin uc" by (simp_all add: is_confusable_letter_def)
  from utf_step_alpha_fields [OF c(1), of is_url v] utf_step_alpha_badness [OF c(1), of is_url v]
    assms(1-3) c(2,3)
  show ?thesis by simp
qed

lemma run_then_switch_word:
  assumes "u8_decode w = x # ls @ [c]" and "length ls + 2 \<le> unat (max_word_len ctx)"
    and "u_isalpha lib x" and "ls \<noteq> []" and "\<forall>l \<in> set ls. is_latin_letter lib l"
    and "is_confusable_letter lib c"
  shows "fst (rspamd_chartable_process_word_utf lib ctx w is_url nc)
     = dbl_div 1 (real (length ls))"
proof -
  have b: "badness (utf_scan lib is_url nc (x # ls @ [c])) = dbl_div 1 (real (length ls))"
    using assms(3-6) by (rule utf_run_then_switch)
  from assms(4) have "dbl_div 1 (real (length ls)) \<le> 2"
    by (simp add: dbl_div_le_2)
  with b have "badness (utf_scan lib is_url nc (x # ls @ [c])) \<le> 4" by linarith
  with utf_finish_short [of "x # ls @ [c]" ctx lib is_url nc] assms(2) b
  show ?thesis by (simp add: process_word_utf_fst assms(1))
qed

text \<open>
  C4.  The claim is that a word of at most \<open>max_word_len\<close> characters that alternates a
  Latin letter and a member of the confusable set has a badness above \<open>0\<close>.  The word
  \<open>a U+0443 a U+0443\<close> alternates so and scores \<open>0\<close>: the first letter records no bucket, the
  second records the bucket of the Cyrillic letter, and a return to Latin letters is no
  switch for the scorer.
\<close>

theorem latin_first_alternation_scores_zero:
  "u8_decode [0x61, 0xD1, 0x83, 0x61, 0xD1, 0x83] = [0x61, 0x443, 0x61, 0x443] \<and>
   alternates (is_latin_letter ucd_fragment) (is_confusable_letter ucd_fragment)
     [0x61, 0x443, 0x61, 0x443] \<and>
   length [0x61 :: int, 0x443, 0x61, 0x443] \<le> unat (max_word_len default_ctx) \<and>
   fst (rspamd_chartable_process_word_utf ucd_fragment default_ctx
     [0x61, 0xD1, 0x83, 0x61, 0xD1, 0x83] False None) = 0"
proof -
  have "alternates (is_latin_letter ucd_fragment) (is_confusable_letter ucd_fragment)
     [0x61, 0x443, 0x61, 0x443]"
    by (simp add: ucd_defs cyrillic_u_confusable)
  moreover have "u8_decode [0x61, 0xD1, 0x83, 0x61, 0xD1, 0x83] = [0x61, 0x443, 0x61, 0x443]"
    by (simp add: u8_next.simps u8_trail_def)
  moreover have "fst (rspamd_chartable_process_word_utf ucd_fragment default_ctx
     [0x61, 0xD1, 0x83, 0x61, 0xD1, 0x83] False None) = 0"
    by (simp add: utf_defs block_defs ucd_fragment_def default_ctx_fields cyrillic_u_confusable)
  ultimately show ?thesis by (simp add: default_ctx_fields)
qed

text \<open>
  C4, as amended.  In the Unicode scorer, a letter outside the Latin bucket that is in the
  confusable set, met in a tracked run (state \<open>got_alpha\<close>, positive run counter) whose flag
  \<open>last_is_latin\<close> is not \<open>0\<close>, adds exactly \<open>1.0 / run_length\<close> to the badness (the quotient
  and the sum are those of doubles, \<open>dbl_div\<close> and \<open>dbl_add\<close>) and resets the
  run to the length \<open>1\<close> with the flag \<open>0\<close>.  A word of at most \<open>max_word_len\<close> characters that
  alternates a Latin letter and such a confusable letter scores \<open>0\<close> when it starts with the
  Latin letter; when it starts with the confusable letter it scores \<open>1\<close> if it has three
  characters or more and \<open>0\<close> if it is shorter.  A word of at most \<open>max_word_len\<close> characters
  made of a letter, \<open>n \<ge> 1\<close> Latin letters and one confusable letter scores \<open>1.0 / n\<close>; of two
  such words the one with the longer Latin run scores strictly less.
\<close>

theorem confusable_switch_penalty:
  "(state v = got_alpha \<and> 0 < same_script_count v \<and> last_is_latin v \<noteq> 0 \<and>
    is_confusable_letter lib uc \<longrightarrow>
      badness (utf_step lib is_url uc v)
        = dbl_add (badness v) (dbl_div 1 (real (same_script_count v))) \<and>
      same_script_count (utf_step lib is_url uc v) = 1 \<and>
      last_is_latin (utf_step lib is_url uc v) = 0) \<and>
   (u8_decode w = cs \<and> length cs \<le> unat (max_word_len ctx) \<and>
    alternates (is_latin_letter lib) (is_confusable_letter lib) cs \<longrightarrow>
      fst (rspamd_chartable_process_word_utf lib ctx w is_url nc) = 0) \<and>
   (u8_decode w = cs \<and> length cs \<le> unat (max_word_len ctx) \<and>
    alternates (is_confusable_letter lib) (is_latin_letter lib) cs \<longrightarrow>
      fst (rspamd_chartable_process_word_utf lib ctx w is_url nc)
        = (if 3 \<le> length cs then 1 else 0)) \<and>
   (u8_decode w = x # ls @ [c] \<and> length ls + 2 \<le> unat (max_word_len ctx) \<and> u_isalpha lib x \<and>
    ls \<noteq> [] \<and> (\<forall>l \<in> set ls. is_latin_letter lib l) \<and> is_confusable_letter lib c \<longrightarrow>
      fst (rspamd_chartable_process_word_utf lib ctx w is_url nc)
        = dbl_div 1 (real (length ls))) \<and>
   (u8_decode w = x # ls @ [c] \<and> length ls + 2 \<le> unat (max_word_len ctx) \<and> u_isalpha lib x \<and>
    ls \<noteq> [] \<and> (\<forall>l \<in> set ls. is_latin_letter lib l) \<and> is_confusable_letter lib c \<and>
    u8_decode w' = x' # ls' @ [c'] \<and> length ls' + 2 \<le> unat (max_word_len ctx) \<and> u_isalpha lib x' \<and>
    (\<forall>l \<in> set ls'. is_latin_letter lib l) \<and> is_confusable_letter lib c' \<and>
    length ls < length ls' \<longrightarrow>
      fst (rspamd_chartable_process_word_utf lib ctx w' is_url nc)
        < fst (rspamd_chartable_process_word_utf lib ctx w is_url nc))"
proof (intro conjI impI)
  assume a: "state v = got_alpha \<and> 0 < same_script_count v \<and> last_is_latin v \<noteq> 0 \<and>
    is_confusable_letter lib uc"
  with utf_step_confusable [of v lib uc is_url]
  show "badness (utf_step lib is_url uc v)
        = dbl_add (badness v) (dbl_div 1 (real (same_script_count v)))"
    and "same_script_count (utf_step lib is_url uc v) = 1"
    and "last_is_latin (utf_step lib is_url uc v) = 0" by simp_all
next
  assume a: "u8_decode w = cs \<and> length cs \<le> unat (max_word_len ctx) \<and>
    alternates (is_latin_letter lib) (is_confusable_letter lib) cs"
  with latin_first_alternation [of lib cs is_url nc]
  have b: "badness (utf_scan lib is_url nc cs) = 0" by simp
  with a utf_finish_short [of cs ctx lib is_url nc]
  show "fst (rspamd_chartable_process_word_utf lib ctx w is_url nc) = 0"
    by (simp add: process_word_utf_fst)
next
  assume a: "u8_decode w = cs \<and> length cs \<le> unat (max_word_len ctx) \<and>
    alternates (is_confusable_letter lib) (is_latin_letter lib) cs"
  with confusable_first_alternation [of lib cs is_url nc]
  have b: "badness (utf_scan lib is_url nc cs) = (if 3 \<le> length cs then 1 else 0)" by simp
  with a utf_finish_short [of cs ctx lib is_url nc]
  show "fst (rspamd_chartable_process_word_utf lib ctx w is_url nc)
        = (if 3 \<le> length cs then 1 else 0)"
    by (simp add: process_word_utf_fst)
next
  assume "u8_decode w = x # ls @ [c] \<and> length ls + 2 \<le> unat (max_word_len ctx) \<and> u_isalpha lib x \<and>
    ls \<noteq> [] \<and> (\<forall>l \<in> set ls. is_latin_letter lib l) \<and> is_confusable_letter lib c"
  then show "fst (rspamd_chartable_process_word_utf lib ctx w is_url nc)
        = dbl_div 1 (real (length ls))"
    using run_then_switch_word [of w x ls c ctx lib is_url nc] by simp
next
  assume a: "u8_decode w = x # ls @ [c] \<and> length ls + 2 \<le> unat (max_word_len ctx) \<and> u_isalpha lib x \<and>
    ls \<noteq> [] \<and> (\<forall>l \<in> set ls. is_latin_letter lib l) \<and> is_confusable_letter lib c \<and>
    u8_decode w' = x' # ls' @ [c'] \<and> length ls' + 2 \<le> unat (max_word_len ctx) \<and> u_isalpha lib x' \<and>
    (\<forall>l \<in> set ls'. is_latin_letter lib l) \<and> is_confusable_letter lib c' \<and>
    length ls < length ls'"
  then have ne: "ls \<noteq> []" "ls' \<noteq> []" by auto
  from a ne have 1: "fst (rspamd_chartable_process_word_utf lib ctx w is_url nc)
      = dbl_div 1 (real (length ls))"
    using run_then_switch_word [of w x ls c ctx lib is_url nc] by simp
  from a ne have 2: "fst (rspamd_chartable_process_word_utf lib ctx w' is_url nc)
      = dbl_div 1 (real (length ls'))"
    using run_then_switch_word [of w' x' ls' c' ctx lib is_url nc] by simp
  have "unat (max_word_len ctx) < 2 ^ 32"
    using unsigned_less [of "max_word_len ctx"] by simp
  with a have "length ls' < 2 ^ 32" by linarith
  moreover from a ne have "0 < length ls" "length ls < length ls'" by simp_all
  ultimately have "dbl_div 1 (real (length ls')) < dbl_div 1 (real (length ls))"
    by (rule_tac dbl_div_strict)
  with 1 2 show "fst (rspamd_chartable_process_word_utf lib ctx w' is_url nc)
        < fst (rspamd_chartable_process_word_utf lib ctx w is_url nc)" by simp
qed

text \<open>
  With \<open>max_word_len = 10\<close>: a tracked Latin run of length \<open>2\<close> before \<open>U+0443\<close>; the words
  \<open>a U+0443 a U+0443\<close> (score \<open>0\<close>) and \<open>U+0443 a U+0443 a\<close> (score \<open>1\<close>); the words
  \<open>p a a U+0443\<close> (score \<open>1 / 2\<close>) and \<open>p a a a U+0443\<close>, which scores less.
\<close>

theorem confusable_switch_penalty_witness:
  "is_latin_letter ucd_fragment 0x61 \<and> is_confusable_letter ucd_fragment 0x443 \<and>
   u_isalpha ucd_fragment 0x70 \<and> max_word_len default_ctx = 10 \<and>
   badness (utf_step ucd_fragment False 0x443
     \<lparr>badness = 0, same_script_count = 2, state = got_alpha, last_is_latin = 1, nsym = 3,
      prev_state = got_alpha, ncap = None\<rparr>) = 1 / 2 \<and>
   same_script_count (utf_step ucd_fragment False 0x443
     \<lparr>badness = 0, same_script_count = 2, state = got_alpha, last_is_latin = 1, nsym = 3,
      prev_state = got_alpha, ncap = None\<rparr>) = 1 \<and>
   last_is_latin (utf_step ucd_fragment False 0x443
     \<lparr>badness = 0, same_script_count = 2, state = got_alpha, last_is_latin = 1, nsym = 3,
      prev_state = got_alpha, ncap = None\<rparr>) = 0 \<and>
   u8_decode [0x61, 0xD1, 0x83, 0x61, 0xD1, 0x83] = [0x61, 0x443, 0x61, 0x443] \<and>
   fst (rspamd_chartable_process_word_utf ucd_fragment default_ctx
     [0x61, 0xD1, 0x83, 0x61, 0xD1, 0x83] False None) = 0 \<and>
   u8_decode [0xD1, 0x83, 0x61, 0xD1, 0x83, 0x61] = [0x443, 0x61, 0x443, 0x61] \<and>
   fst (rspamd_chartable_process_word_utf ucd_fragment default_ctx
     [0xD1, 0x83, 0x61, 0xD1, 0x83, 0x61] False None) = 1 \<and>
   u8_decode [0x70, 0x61, 0x61, 0xD1, 0x83] = 0x70 # [0x61, 0x61] @ [0x443] \<and>
   fst (rspamd_chartable_process_word_utf ucd_fragment default_ctx
     [0x70, 0x61, 0x61, 0xD1, 0x83] False None) = 1 / 2 \<and>
   u8_decode [0x70, 0x61, 0x61, 0x61, 0xD1, 0x83] = 0x70 # [0x61, 0x61, 0x61] @ [0x443] \<and>
   fst (rspamd_chartable_process_word_utf ucd_fragment default_ctx
     [0x70, 0x61, 0x61, 0x61, 0xD1, 0x83] False None)
     < fst (rspamd_chartable_process_word_utf ucd_fragment default_ctx
         [0x70, 0x61, 0x61, 0xD1, 0x83] False None)"
proof -
  have h: "is_latin_letter ucd_fragment 0x61 \<and> is_confusable_letter ucd_fragment 0x443 \<and>
      u_isalpha ucd_fragment 0x70"
    by (simp add: ucd_defs cyrillic_u_confusable)
  have d1: "u8_decode [0x61, 0xD1, 0x83, 0x61, 0xD1, 0x83] = [0x61, 0x443, 0x61, 0x443]"
    and d2: "u8_decode [0xD1, 0x83, 0x61, 0xD1, 0x83, 0x61] = [0x443, 0x61, 0x443, 0x61]"
    and d3: "u8_decode [0x70, 0x61, 0x61, 0xD1, 0x83] = 0x70 # [0x61, 0x61] @ [0x443]"
    and d4: "u8_decode [0x70, 0x61, 0x61, 0x61, 0xD1, 0x83] = 0x70 # [0x61, 0x61, 0x61] @ [0x443]"
    by (simp_all add: u8_next.simps u8_trail_def)
  let ?v = "\<lparr>badness = 0, same_script_count = 2, state = got_alpha, last_is_latin = 1, nsym = 3,
      prev_state = got_alpha, ncap = None\<rparr>"
  from confusable_switch_penalty [where v = ?v and lib = ucd_fragment and uc = "0x443"
      and is_url = False and w = "[0x61, 0xD1, 0x83, 0x61, 0xD1, 0x83]"
      and cs = "[0x61, 0x443, 0x61, 0x443]" and ctx = default_ctx and nc = None]
    h d1
  have a: "badness (utf_step ucd_fragment False 0x443 ?v) = 1 / 2 \<and>
      same_script_count (utf_step ucd_fragment False 0x443 ?v) = 1 \<and>
      last_is_latin (utf_step ucd_fragment False 0x443 ?v) = 0 \<and>
      fst (rspamd_chartable_process_word_utf ucd_fragment default_ctx
        [0x61, 0xD1, 0x83, 0x61, 0xD1, 0x83] False None) = 0"
    by (simp add: default_ctx_fields dbl_defs)
  from confusable_switch_penalty [where lib = ucd_fragment and is_url = False
      and w = "[0xD1, 0x83, 0x61, 0xD1, 0x83, 0x61]" and cs = "[0x443, 0x61, 0x443, 0x61]"
      and ctx = default_ctx and nc = None]
    h d2
  have b: "fst (rspamd_chartable_process_word_utf ucd_fragment default_ctx
        [0xD1, 0x83, 0x61, 0xD1, 0x83, 0x61] False None) = 1"
    by (simp add: default_ctx_fields)
  from confusable_switch_penalty [where lib = ucd_fragment and is_url = False
      and w = "[0x70, 0x61, 0x61, 0xD1, 0x83]" and x = "0x70" and ls = "[0x61, 0x61]"
      and c = "0x443" and w' = "[0x70, 0x61, 0x61, 0x61, 0xD1, 0x83]" and x' = "0x70"
      and ls' = "[0x61, 0x61, 0x61]" and c' = "0x443" and ctx = default_ctx and nc = None]
    h d3 d4
  have c: "fst (rspamd_chartable_process_word_utf ucd_fragment default_ctx
        [0x70, 0x61, 0x61, 0xD1, 0x83] False None) = 1 / 2 \<and>
      fst (rspamd_chartable_process_word_utf ucd_fragment default_ctx
        [0x70, 0x61, 0x61, 0x61, 0xD1, 0x83] False None)
        < fst (rspamd_chartable_process_word_utf ucd_fragment default_ctx
            [0x70, 0x61, 0x61, 0xD1, 0x83] False None)"
    by (simp add: default_ctx_fields dbl_defs)
  from h d1 d2 d3 d4 a b c show ?thesis
    by (simp add: default_ctx_fields)
qed

end
